theory Spec2Isabelle
  imports Main "HOL-Library.Multiset"
begin

section \<open>Player state (src/game/player.py)\<close>

text \<open>
  A Python \<open>Player\<close> object is a record; Python's unbounded integers are \<open>int\<close>.
  Objects are compared by identity in the source (the class defines neither
  \<open>__eq__\<close> nor \<open>__hash__\<close>), so wherever identity matters a player is referred to
  by a reference of type \<open>pid\<close> into a store.  The hole cards are declared with
  the card model further down; the player operations below never read them.
\<close>

datatype PlayerStatus = ACTIVE | FOLDED | ALL_IN | SITTING_OUT

datatype PlayerAction = FOLD | CHECK | CALL | RAISE | ALL_IN_ACTION

datatype Suit = HEARTS | DIAMONDS | CLUBS | SPADES

datatype Rank = TWO | THREE | FOUR | FIVE | SIX | SEVEN | EIGHT | NINE | TEN
  | JACK | QUEEN | KING | ACE

record Card =
  suit :: Suit
  rank :: Rank

record Player =
  name :: string
  chips :: int
  position :: nat
  hole_cards :: "Card list"
  status :: PlayerStatus
  current_bet :: int
  total_bet :: int
  last_action :: "PlayerAction option"
  hands_played :: int
  hands_won :: int
  total_winnings :: int

text \<open>\<open>Player.__init__(name, chips, position)\<close> and \<open>sit_in\<close>.\<close>

definition Player_init :: "string \<Rightarrow> int \<Rightarrow> nat \<Rightarrow> Player" where
  "Player_init nm c pos =
     \<lparr>name = nm, chips = c, position = pos, hole_cards = [],
      status = SITTING_OUT, current_bet = 0, total_bet = 0, last_action = None,
      hands_played = 0, hands_won = 0, total_winnings = 0\<rparr>"

definition sit_in :: "Player \<Rightarrow> Player" where
  "sit_in p = (if chips p > 0 then p\<lparr>status := ACTIVE\<rparr> else p)"

definition can_act :: "Player \<Rightarrow> bool" where
  "can_act p = (status p = ACTIVE)"

definition is_in_hand :: "Player \<Rightarrow> bool" where
  "is_in_hand p = (status p = ACTIVE \<or> status p = ALL_IN)"

definition fold_player :: "Player \<Rightarrow> Player" where
  "fold_player p =
     (if status p \<noteq> SITTING_OUT
      then p\<lparr>status := FOLDED, last_action := Some FOLD\<rparr>
      else p)"

text \<open>\<open>Player.check\<close>: returns whether the check succeeded, with the updated player.\<close>

definition check_player :: "Player \<Rightarrow> bool \<times> Player" where
  "check_player p =
     (if current_bet p = 0 \<and> status p = ACTIVE
      then (True, p\<lparr>last_action := Some CHECK\<rparr>)
      else (False, p))"

text \<open>
  \<open>Player.call(amount)\<close>, \<open>Player.raise_bet(total_amount)\<close>, \<open>Player.all_in()\<close>
  and \<open>Player.post_blind(amount)\<close>: each returns the amount it reports together
  with the updated player.
\<close>

definition call :: "Player \<Rightarrow> int \<Rightarrow> int \<times> Player" where
  "call p amount =
     (if status p \<noteq> ACTIVE then (0, p)
      else let call_amount = amount - current_bet p in
        if call_amount \<le> 0 then (0, p)
        else if call_amount \<ge> chips p then
          (let actual_bet = chips p in
             (actual_bet,
              p\<lparr>chips := 0,
                current_bet := current_bet p + actual_bet,
                total_bet := total_bet p + actual_bet,
                status := ALL_IN,
                last_action := Some ALL_IN_ACTION\<rparr>))
        else
          (call_amount,
           p\<lparr>chips := chips p - call_amount,
             current_bet := current_bet p + call_amount,
             total_bet := total_bet p + call_amount,
             last_action := Some CALL\<rparr>))"

definition raise_bet :: "Player \<Rightarrow> int \<Rightarrow> int \<times> Player" where
  "raise_bet p total_amount =
     (if status p \<noteq> ACTIVE then (0, p)
      else let raise_amount = total_amount - current_bet p in
        if raise_amount \<le> 0 then (0, p)
        else if raise_amount \<ge> chips p then
          (let actual_bet = chips p in
             (actual_bet,
              p\<lparr>chips := 0,
                current_bet := current_bet p + actual_bet,
                total_bet := total_bet p + actual_bet,
                status := ALL_IN,
                last_action := Some ALL_IN_ACTION\<rparr>))
        else
          (raise_amount,
           p\<lparr>chips := chips p - raise_amount,
             current_bet := current_bet p + raise_amount,
             total_bet := total_bet p + raise_amount,
             last_action := Some RAISE\<rparr>))"

definition all_in :: "Player \<Rightarrow> int \<times> Player" where
  "all_in p =
     (if status p \<noteq> ACTIVE \<or> chips p = 0 then (0, p)
      else let all_in_amount = chips p in
        (all_in_amount,
         p\<lparr>chips := 0,
           current_bet := current_bet p + all_in_amount,
           total_bet := total_bet p + all_in_amount,
           status := ALL_IN,
           last_action := Some ALL_IN_ACTION\<rparr>))"

definition post_blind :: "Player \<Rightarrow> int \<Rightarrow> int \<times> Player" where
  "post_blind p amount =
     (if chips p \<le> amount then
        (let actual_amount = chips p in
           (actual_amount,
            p\<lparr>chips := 0,
              current_bet := actual_amount,
              total_bet := actual_amount,
              status := ALL_IN\<rparr>))
      else
        (amount,
         p\<lparr>chips := chips p - amount,
           current_bet := amount,
           total_bet := amount\<rparr>))"

definition new_betting_round :: "Player \<Rightarrow> Player" where
  "new_betting_round p =
     (let p1 = p\<lparr>current_bet := 0, last_action := None\<rparr> in
        if status p1 = FOLDED then p1
        else if status p1 = ALL_IN then p1
        else if chips p1 > 0 then p1\<lparr>status := ACTIVE\<rparr>
        else p1)"

definition new_hand :: "Player \<Rightarrow> Player" where
  "new_hand p =
     (let p1 = p\<lparr>hole_cards := [], current_bet := 0, total_bet := 0,
                  last_action := None\<rparr> in
        if chips p1 > 0 then p1\<lparr>status := ACTIVE\<rparr>
        else p1\<lparr>status := SITTING_OUT\<rparr>)"

definition win_chips :: "Player \<Rightarrow> int \<Rightarrow> Player" where
  "win_chips p amount =
     p\<lparr>chips := chips p + amount,
       total_winnings := total_winnings p + amount,
       hands_won := hands_won p + 1\<rparr>"

text \<open>
  What \<open>Game.start_new_hand\<close> does to one seat: \<open>player.new_hand()\<close>, the
  \<open>hands_played\<close> count, the hole cards that \<open>_deal_hole_cards\<close> appends, and then,
  for the two blind seats only, the one call of \<open>post_blind\<close> in \<open>_post_blinds\<close>
  (\<open>blind\<close> is \<open>None\<close> for every other seat).  \<open>_post_blinds\<close> is the only caller of
  \<open>post_blind\<close>, and it posts the small and the big blind on two different seats.
\<close>

definition seat_start_hand :: "Player \<Rightarrow> Card list \<Rightarrow> int option \<Rightarrow> Player" where
  "seat_start_hand p dealt blind =
     (let p1 = new_hand p;
          p2 = p1\<lparr>hands_played := hands_played p1 + 1\<rparr>;
          p3 = p2\<lparr>hole_cards := hole_cards p2 @ dealt\<rparr>
      in case blind of
           None \<Rightarrow> p3
         | Some blind_amt \<Rightarrow> snd (post_blind p3 blind_amt))"

definition blind_amount_ok :: "int option \<Rightarrow> bool" where
  "blind_amount_ok blind =
     (case blind of None \<Rightarrow> True | Some blind_amt \<Rightarrow> 0 \<le> blind_amt)"

text \<open>
  The operations a seat goes through after the start of the hand and before the
  payout, as a datatype, so that "throughout a hand" is a statement about every
  sequence of them.
\<close>

datatype seat_op =
    SeatCall int | SeatRaise int | SeatAllIn | SeatFold | SeatCheck | SeatNewRound

fun apply_seat_op :: "Player \<Rightarrow> seat_op \<Rightarrow> Player" where
  "apply_seat_op p (SeatCall a) = snd (call p a)"
| "apply_seat_op p (SeatRaise a) = snd (raise_bet p a)"
| "apply_seat_op p SeatAllIn = snd (all_in p)"
| "apply_seat_op p SeatFold = fold_player p"
| "apply_seat_op p SeatCheck = snd (check_player p)"
| "apply_seat_op p SeatNewRound = new_betting_round p"

definition seat_inv :: "int \<Rightarrow> Player \<Rightarrow> bool" where
  "seat_inv s0 p =
     (0 \<le> chips p \<and> 0 \<le> current_bet p \<and> current_bet p \<le> total_bet p
      \<and> chips p + total_bet p = s0)"

section \<open>Pot ledger (src/game/pot.py)\<close>

text \<open>
  A player object is referred to by its identity, a \<open>pid\<close>; the objects live in a
  store \<open>pid \<Rightarrow> Player\<close>.  A Python dict keeps its keys in insertion order, so
  it is an association list with distinct keys: \<open>dict_get\<close> is the lookup,
  \<open>dict_set\<close> is \<open>d[k] = v\<close>.
\<close>

type_synonym pid = nat

type_synonym ('k, 'v) dict = "('k \<times> 'v) list"

definition dict_get :: "('k, 'v) dict \<Rightarrow> 'k \<Rightarrow> 'v option" where
  "dict_get d k = map_of d k"

fun dict_set :: "('k, 'v) dict \<Rightarrow> 'k \<Rightarrow> 'v \<Rightarrow> ('k, 'v) dict" where
  "dict_set [] k v = [(k, v)]"
| "dict_set ((k', v') # kvs) k v =
     (if k' = k then (k, v) # kvs else (k', v') # dict_set kvs k v)"

record SidePot =
  amount :: int
  eligible_players :: "pid list"

record Pot =
  main_pot :: int
  side_pots :: "SidePot list"
  player_contributions :: "(pid, int) dict"

definition reset_pot :: "Pot \<Rightarrow> Pot" where
  "reset_pot pt = pt\<lparr>main_pot := 0, side_pots := [], player_contributions := []\<rparr>"

definition add_bet :: "Pot \<Rightarrow> pid \<Rightarrow> int \<Rightarrow> Pot" where
  "add_bet pt player amt =
     (let pc0 = player_contributions pt;
          pc1 = (if dict_get pc0 player = None then dict_set pc0 player 0 else pc0);
          pc2 = dict_set pc1 player (the (dict_get pc1 player) + amt)
      in pt\<lparr>player_contributions := pc2, main_pot := main_pot pt + amt\<rparr>)"

text \<open>
  The loop of \<open>Pot.create_side_pots\<close> over the sorted contributions.  Its state is
  \<open>previous_amount\<close> and \<open>remaining_players\<close>; the side pots it appends are returned
  in the order the source appends them.  \<open>list.remove\<close> deletes the first
  occurrence, which is \<open>remove1\<close>.
\<close>

fun side_pot_loop ::
  "(pid \<Rightarrow> Player) \<Rightarrow> (pid \<times> int) list \<Rightarrow> int \<Rightarrow> pid list \<Rightarrow> SidePot list" where
  "side_pot_loop h [] previous_amount remaining_players = []"
| "side_pot_loop h ((current_player, current_amount) # rest) previous_amount remaining_players =
     (let new_pots =
            (if current_amount > previous_amount then
               (let pot_amount =
                      (current_amount - previous_amount) * int (length remaining_players) in
                  if pot_amount > 0 then
                    (let eligible = filter (\<lambda>p. is_in_hand (h p)) remaining_players in
                       if eligible \<noteq> []
                       then [\<lparr>amount = pot_amount, eligible_players = eligible\<rparr>]
                       else [])
                  else [])
             else []);
          previous_amount' =
            (if current_amount > previous_amount then current_amount else previous_amount);
          remaining_players' =
            (if current_player \<in> set remaining_players
             then remove1 current_player remaining_players
             else remaining_players)
      in new_pots @ side_pot_loop h rest previous_amount' remaining_players')"

text \<open>Python's \<open>list.sort\<close> is stable, and so is \<open>sort_key\<close>.\<close>

definition create_side_pots :: "(pid \<Rightarrow> Player) \<Rightarrow> Pot \<Rightarrow> pid list \<Rightarrow> Pot" where
  "create_side_pots h pt players_arg =
     (if player_contributions pt = [] then pt
      else
        (let contributions =
               sort_key snd
                 (concat (map (\<lambda>p. case dict_get (player_contributions pt) p of
                                       None \<Rightarrow> [] | Some c \<Rightarrow> [(p, c)]) players_arg))
         in pt\<lparr>side_pots := side_pot_loop h contributions 0 players_arg\<rparr>))"




definition get_total_pot :: "Pot \<Rightarrow> int" where
  "get_total_pot pt = main_pot pt"

text \<open>
  The layers as the specification words them: the distinct positive contribution
  levels in ascending order, each layer worth the difference to the level below times
  the number of listed players who contributed at least that level, open to those of
  them who are still in the hand.
\<close>

definition contribution_of :: "(pid, int) dict \<Rightarrow> pid \<Rightarrow> int" where
  "contribution_of pc p = (case dict_get pc p of None \<Rightarrow> 0 | Some c \<Rightarrow> c)"

definition contribution_levels :: "(pid, int) dict \<Rightarrow> pid list \<Rightarrow> int list" where
  "contribution_levels pc ps =
     sorted_list_of_set (set (filter (\<lambda>l. 0 < l) (map (contribution_of pc) ps)))"

fun spec_layers ::
  "(pid \<Rightarrow> Player) \<Rightarrow> (pid, int) dict \<Rightarrow> pid list \<Rightarrow> int \<Rightarrow> int list \<Rightarrow> SidePot list" where
  "spec_layers h pc ps below [] = []"
| "spec_layers h pc ps below (level # levels) =
     (let at_level = filter (\<lambda>p. level \<le> contribution_of pc p) ps in
        \<lparr>amount = (level - below) * int (length at_level),
         eligible_players = filter (\<lambda>p. is_in_hand (h p)) at_level\<rparr>
        # spec_layers h pc ps level levels)"

definition compute_side_pots_spec ::
  "(pid \<Rightarrow> Player) \<Rightarrow> (pid, int) dict \<Rightarrow> pid list \<Rightarrow> SidePot list" where
  "compute_side_pots_spec h pc ps = spec_layers h pc ps 0 (contribution_levels pc ps)"

section \<open>Hand evaluator (src/game/hand_evaluator.py)\<close>

fun rank_value :: "Rank \<Rightarrow> int" where
  "rank_value TWO = 2" | "rank_value THREE = 3" | "rank_value FOUR = 4"
| "rank_value FIVE = 5" | "rank_value SIX = 6" | "rank_value SEVEN = 7"
| "rank_value EIGHT = 8" | "rank_value NINE = 9" | "rank_value TEN = 10"
| "rank_value JACK = 11" | "rank_value QUEEN = 12" | "rank_value KING = 13"
| "rank_value ACE = 14"

datatype HandRank = HIGH_CARD | ONE_PAIR | TWO_PAIR | THREE_OF_A_KIND | STRAIGHT
  | FLUSH | FULL_HOUSE | FOUR_OF_A_KIND | STRAIGHT_FLUSH | ROYAL_FLUSH

fun hand_rank_value :: "HandRank \<Rightarrow> int" where
  "hand_rank_value HIGH_CARD = 1" | "hand_rank_value ONE_PAIR = 2"
| "hand_rank_value TWO_PAIR = 3" | "hand_rank_value THREE_OF_A_KIND = 4"
| "hand_rank_value STRAIGHT = 5" | "hand_rank_value FLUSH = 6"
| "hand_rank_value FULL_HOUSE = 7" | "hand_rank_value FOUR_OF_A_KIND = 8"
| "hand_rank_value STRAIGHT_FLUSH = 9" | "hand_rank_value ROYAL_FLUSH = 10"

text \<open>A \<open>HandResult\<close>; its \<open>description\<close> string is display text that no
  comparison reads, and is left out.\<close>

record HandResult =
  hand_rank :: HandRank
  cards :: "Card list"
  rank_values :: "int list"

datatype error = ValueError | IndexError | TypeError

text \<open>\<open>HandResult.__lt__\<close>: the category first, then the first position at which
  the zipped tie-break lists differ.\<close>

fun first_difference_lt :: "int list \<Rightarrow> int list \<Rightarrow> bool" where
  "first_difference_lt (a # as) (b # bs) =
     (if a \<noteq> b then a < b else first_difference_lt as bs)"
| "first_difference_lt _ _ = False"

definition hand_lt :: "HandResult \<Rightarrow> HandResult \<Rightarrow> bool" where
  "hand_lt self other =
     (if hand_rank_value (hand_rank self) \<noteq> hand_rank_value (hand_rank other)
      then hand_rank_value (hand_rank self) < hand_rank_value (hand_rank other)
      else first_difference_lt (rank_values self) (rank_values other))"

definition hand_eq :: "HandResult \<Rightarrow> HandResult \<Rightarrow> bool" where
  "hand_eq self other =
     (hand_rank self = hand_rank other \<and> rank_values self = rank_values other)"

text \<open>The class defines no \<open>__gt__\<close>, so \<open>a > b\<close> is the reflected \<open>b.__lt__(a)\<close>.\<close>

definition hand_gt :: "HandResult \<Rightarrow> HandResult \<Rightarrow> bool" where
  "hand_gt a b = hand_lt b a"

text \<open>\<open>collections.Counter\<close> over an iterable: a dict in order of first occurrence.\<close>

fun counter_add :: "int \<Rightarrow> (int, nat) dict \<Rightarrow> (int, nat) dict" where
  "counter_add r [] = [(r, 1)]"
| "counter_add r ((k, c) # kvs) =
     (if k = r then (k, c + 1) # kvs else (k, c) # counter_add r kvs)"

definition Counter :: "int list \<Rightarrow> (int, nat) dict" where
  "Counter rs = fold counter_add rs []"

definition rank_counts_of :: "Card list \<Rightarrow> (int, nat) dict" where
  "rank_counts_of cs = Counter (map (\<lambda>c. rank_value (rank c)) cs)"

definition ranks_with_count :: "nat \<Rightarrow> (int, nat) dict \<Rightarrow> int list" where
  "ranks_with_count n rc = map fst (filter (\<lambda>(r, c). c = n) rc)"

definition is_flush :: "Card list \<Rightarrow> bool" where
  "is_flush cs = (card (set (map suit cs)) = 1)"

text \<open>\<open>ranks[0]\<close> and \<open>ranks[-1]\<close> raise \<open>IndexError\<close> on an empty list.\<close>

definition is_straight :: "Card list \<Rightarrow> error + bool" where
  "is_straight cs =
     (let ranks = sort (map (\<lambda>c. rank_value (rank c)) cs) in
        case ranks of
          [] \<Rightarrow> Inl IndexError
        | r0 # _ \<Rightarrow>
            if ranks = [r0 ..r0 + 4] then Inr True
            else if ranks = [2, 3, 4, 5, 14] then Inr True
            else Inr False)"

definition is_royal_flush :: "Card list \<Rightarrow> bool" where
  "is_royal_flush cs =
     (if \<not> is_flush cs then False
      else sort (map (\<lambda>c. rank_value (rank c)) cs) = [10, 11, 12, 13, 14])"

definition is_straight_flush :: "Card list \<Rightarrow> error + bool" where
  "is_straight_flush cs = (if is_flush cs then is_straight cs else Inr False)"

definition get_straight_high_card :: "Card list \<Rightarrow> error + int" where
  "get_straight_high_card cs =
     (let ranks = sort (map (\<lambda>c. rank_value (rank c)) cs) in
        if ranks = [2, 3, 4, 5, 14] then Inr 5
        else if ranks = [] then Inl IndexError
        else Inr (last ranks))"

text \<open>The \<open>_check_*\<close> helpers return \<open>None\<close> (no such category), a result, or raise
  \<open>IndexError\<close> where the source indexes \<open>[0]\<close> into an empty kicker list.\<close>

definition check_four_of_a_kind :: "Card list \<Rightarrow> error + HandResult option" where
  "check_four_of_a_kind cs =
     (let rank_counts = rank_counts_of cs in
        case find (\<lambda>(r, c). c = 4) rank_counts of
          None \<Rightarrow> Inr None
        | Some (r, c) \<Rightarrow>
            (case ranks_with_count 1 rank_counts of
               [] \<Rightarrow> Inl IndexError
             | kicker # _ \<Rightarrow>
                 Inr (Some \<lparr>hand_rank = FOUR_OF_A_KIND, cards = cs,
                            rank_values = [r, kicker]\<rparr>)))"

fun full_house_scan ::
  "(int, nat) dict \<Rightarrow> int option \<Rightarrow> int option \<Rightarrow> int option \<times> int option" where
  "full_house_scan [] three_rank pair_rank = (three_rank, pair_rank)"
| "full_house_scan ((r, c) # rest) three_rank pair_rank =
     (if c = 3 then full_house_scan rest (Some r) pair_rank
      else if c = 2 then full_house_scan rest three_rank (Some r)
      else full_house_scan rest three_rank pair_rank)"

text \<open>Python truthiness of \<open>three_rank and pair_rank\<close>: \<open>None\<close> and \<open>0\<close> are false.\<close>

fun truthy :: "int option \<Rightarrow> bool" where
  "truthy None = False"
| "truthy (Some v) = (v \<noteq> 0)"

definition check_full_house :: "Card list \<Rightarrow> HandResult option" where
  "check_full_house cs =
     (case full_house_scan (rank_counts_of cs) None None of
        (three_rank, pair_rank) \<Rightarrow>
          if truthy three_rank \<and> truthy pair_rank
          then Some \<lparr>hand_rank = FULL_HOUSE, cards = cs,
                     rank_values = [the three_rank, the pair_rank]\<rparr>
          else None)"

definition check_three_of_a_kind :: "Card list \<Rightarrow> HandResult option" where
  "check_three_of_a_kind cs =
     (let rank_counts = rank_counts_of cs in
        case find (\<lambda>(r, c). c = 3) rank_counts of
          None \<Rightarrow> None
        | Some (r, c) \<Rightarrow>
            (let kickers = rev (sort (ranks_with_count 1 rank_counts)) in
               Some \<lparr>hand_rank = THREE_OF_A_KIND, cards = cs,
                     rank_values = r # kickers\<rparr>))"

definition check_two_pair :: "Card list \<Rightarrow> error + HandResult option" where
  "check_two_pair cs =
     (let rank_counts = rank_counts_of cs;
          pairs = ranks_with_count 2 rank_counts in
        if length pairs = 2 then
          (case ranks_with_count 1 rank_counts of
             [] \<Rightarrow> Inl IndexError
           | kicker # _ \<Rightarrow>
               Inr (Some \<lparr>hand_rank = TWO_PAIR, cards = cs,
                          rank_values = rev (sort pairs) @ [kicker]\<rparr>))
        else Inr None)"

definition check_one_pair :: "Card list \<Rightarrow> HandResult option" where
  "check_one_pair cs =
     (let rank_counts = rank_counts_of cs in
        case find (\<lambda>(r, c). c = 2) rank_counts of
          None \<Rightarrow> None
        | Some (r, c) \<Rightarrow>
            (let kickers = rev (sort (ranks_with_count 1 rank_counts)) in
               Some \<lparr>hand_rank = ONE_PAIR, cards = cs, rank_values = r # kickers\<rparr>))"

text \<open>
  \<open>_evaluate_five_cards\<close>.  \<open>sorted(cards, key=..., reverse=True)\<close> is a stable
  descending sort: a stable ascending sort on the negated key.  The checks run in the
  order of the source; the first that applies returns.
\<close>

definition sort_cards_desc :: "Card list \<Rightarrow> Card list" where
  "sort_cards_desc cs = sort_key (\<lambda>c. - rank_value (rank c)) cs"

definition evaluate_five_cards :: "Card list \<Rightarrow> error + HandResult" where
  "evaluate_five_cards cs =
     (if length cs \<noteq> 5 then Inl ValueError
      else
        let sorted_cards = sort_cards_desc cs;
            values = map (\<lambda>c. rank_value (rank c)) sorted_cards in
        if is_royal_flush sorted_cards
        then Inr \<lparr>hand_rank = ROYAL_FLUSH, cards = sorted_cards, rank_values = [14]\<rparr>
        else case is_straight_flush sorted_cards of
          Inl e \<Rightarrow> Inl e
        | Inr True \<Rightarrow>
            (case get_straight_high_card sorted_cards of
               Inl e \<Rightarrow> Inl e
             | Inr high_card \<Rightarrow>
                 Inr \<lparr>hand_rank = STRAIGHT_FLUSH, cards = sorted_cards,
                      rank_values = [high_card]\<rparr>)
        | Inr False \<Rightarrow>
        case check_four_of_a_kind sorted_cards of
          Inl e \<Rightarrow> Inl e
        | Inr (Some four_kind_result) \<Rightarrow> Inr four_kind_result
        | Inr None \<Rightarrow>
        case check_full_house sorted_cards of
          Some full_house_result \<Rightarrow> Inr full_house_result
        | None \<Rightarrow>
        if is_flush sorted_cards
        then Inr \<lparr>hand_rank = FLUSH, cards = sorted_cards, rank_values = values\<rparr>
        else case is_straight sorted_cards of
          Inl e \<Rightarrow> Inl e
        | Inr True \<Rightarrow>
            (case get_straight_high_card sorted_cards of
               Inl e \<Rightarrow> Inl e
             | Inr high_card \<Rightarrow>
                 Inr \<lparr>hand_rank = STRAIGHT, cards = sorted_cards,
                      rank_values = [high_card]\<rparr>)
        | Inr False \<Rightarrow>
        case check_three_of_a_kind sorted_cards of
          Some three_kind_result \<Rightarrow> Inr three_kind_result
        | None \<Rightarrow>
        case check_two_pair sorted_cards of
          Inl e \<Rightarrow> Inl e
        | Inr (Some two_pair_result) \<Rightarrow> Inr two_pair_result
        | Inr None \<Rightarrow>
        case check_one_pair sorted_cards of
          Some one_pair_result \<Rightarrow> Inr one_pair_result
        | None \<Rightarrow>
            Inr \<lparr>hand_rank = HIGH_CARD, cards = sorted_cards, rank_values = values\<rparr>)"

text \<open>\<open>itertools.combinations(xs, k)\<close>: the \<open>k\<close>-element subsequences in
  lexicographic order of their positions.\<close>

fun combinations :: "'a list \<Rightarrow> nat \<Rightarrow> 'a list list" where
  "combinations xs 0 = [[]]"
| "combinations [] (Suc k) = []"
| "combinations (x # xs) (Suc k) =
     map ((#) x) (combinations xs k) @ combinations xs (Suc k)"

text \<open>The loop of \<open>evaluate_hand\<close>: \<open>best_hand\<close> starts as \<open>None\<close>; an exception of
  the five-card evaluator ends the loop.\<close>

fun best_hand_loop :: "HandResult option \<Rightarrow> Card list list \<Rightarrow> error + HandResult option" where
  "best_hand_loop best_hand [] = Inr best_hand"
| "best_hand_loop best_hand (five_cards # rest) =
     (case evaluate_five_cards five_cards of
        Inl e \<Rightarrow> Inl e
      | Inr hand_result \<Rightarrow>
          (case best_hand of
             None \<Rightarrow> best_hand_loop (Some hand_result) rest
           | Some b \<Rightarrow>
               if hand_gt hand_result b then best_hand_loop (Some hand_result) rest
               else best_hand_loop (Some b) rest))"

definition evaluate_hand :: "Card list \<Rightarrow> error + HandResult option" where
  "evaluate_hand cs =
     (if length cs \<noteq> 7 then Inl ValueError
      else best_hand_loop None (combinations cs 5))"

section \<open>Game engine (src/game/game_engine.py)\<close>

text \<open>
  The game owns a list of references to player objects; the objects themselves live
  in the store \<open>heap\<close>, which also holds players that are not seated.  Seat indices
  only ever receive list positions, so they are \<open>nat\<close>; \<open>last_raiser_index\<close> starts
  at \<open>-1\<close> and is an \<open>int\<close>.  The deck is its list of cards, dealt from the end.
  \<open>mode\<close> and \<open>hand_history\<close> are never read by the functions below and are left out.
\<close>

datatype GamePhase = WAITING | PRE_FLOP | FLOP | TURN | RIVER | SHOWDOWN | HAND_COMPLETE

record Game =
  small_blind :: int
  big_blind :: int
  phase :: GamePhase
  hand_number :: int
  players :: "pid list"
  heap :: "pid \<Rightarrow> Player"
  deck :: "Card list"
  community_cards :: "Card list"
  pot :: Pot
  dealer_position :: nat
  current_player_index :: nat
  last_raiser_index :: int
  game_current_bet :: int
  min_raise :: int

definition Game_init :: "int \<Rightarrow> int \<Rightarrow> (pid \<Rightarrow> Player) \<Rightarrow> Game" where
  "Game_init sb bb h =
     \<lparr>small_blind = sb, big_blind = bb, phase = WAITING, hand_number = 0,
      players = [], heap = h, deck = [], community_cards = [],
      pot = \<lparr>main_pot = 0, side_pots = [], player_contributions = []\<rparr>,
      dealer_position = 0, current_player_index = 0, last_raiser_index = - 1,
      game_current_bet = 0, min_raise = bb\<rparr>"

definition add_player :: "Game \<Rightarrow> pid \<Rightarrow> bool \<times> Game" where
  "add_player g player =
     (if length (players g) \<ge> 6 then (False, g)
      else if list_ex (\<lambda>p. name (heap g p) = name (heap g player)) (players g)
      then (False, g)
      else
        (let h1 = (heap g)(player := (heap g player)\<lparr>position := length (players g)\<rparr>);
             h2 = h1(player := sit_in (h1 player))
         in (True, g\<lparr>players := players g @ [player], heap := h2\<rparr>)))"

text \<open>\<open>Deck.deal_card\<close> pops from the end of the list and returns \<open>None\<close> on an
  empty deck; \<open>Deck.deal_cards\<close> stops at the first \<open>None\<close>.\<close>

definition deal_card :: "Card list \<Rightarrow> Card option \<times> Card list" where
  "deal_card d = (if d = [] then (None, d) else (Some (last d), butlast d))"

fun deal_cards :: "Card list \<Rightarrow> nat \<Rightarrow> Card list \<times> Card list" where
  "deal_cards d 0 = ([], d)"
| "deal_cards d (Suc n) =
     (case deal_card d of
        (None, d') \<Rightarrow> ([], d')
      | (Some c, d') \<Rightarrow> (case deal_cards d' n of (cs, d'') \<Rightarrow> (c # cs, d'')))"

definition deal_community :: "Game \<Rightarrow> nat \<Rightarrow> Game" where
  "deal_community g n =
     (case deal_card (deck g) of
        (burned, d1) \<Rightarrow>
          (case deal_cards d1 n of
             (cs, d2) \<Rightarrow> g\<lparr>deck := d2, community_cards := community_cards g @ cs\<rparr>))"

definition deal_flop :: "Game \<Rightarrow> Game" where
  "deal_flop g = deal_community g 3"

definition deal_turn :: "Game \<Rightarrow> Game" where
  "deal_turn g = deal_community g 1"

definition deal_river :: "Game \<Rightarrow> Game" where
  "deal_river g = deal_community g 1"

text \<open>The seat indices whose player can act, and those whose player has chips
  (both are called \<open>active_players\<close> in the source).\<close>

definition acting_seats :: "Game \<Rightarrow> nat list" where
  "acting_seats g =
     filter (\<lambda>i. can_act (heap g (players g ! i))) [0..<length (players g)]"

definition funded_seats :: "Game \<Rightarrow> nat list" where
  "funded_seats g =
     filter (\<lambda>i. chips (heap g (players g ! i)) > 0) [0..<length (players g)]"

text \<open>\<open>list.index\<close>, called in the source only on a member of the list.\<close>

fun index_of :: "'a list \<Rightarrow> 'a \<Rightarrow> nat" where
  "index_of [] x = 0"
| "index_of (y # ys) x = (if y = x then 0 else Suc (index_of ys x))"

definition get_small_blind_position :: "Game \<Rightarrow> nat" where
  "get_small_blind_position g =
     (let active_players = funded_seats g in
        if length active_players < 2 then 0
        else
          let dealer_idx = dealer_position g in
          if length active_players = 2 then dealer_idx
          else
            let dealer_pos_in_active =
                  (if dealer_idx \<in> set active_players
                   then index_of active_players dealer_idx else 0)
            in active_players ! ((dealer_pos_in_active + 1) mod length active_players))"

definition get_big_blind_position :: "Game \<Rightarrow> nat" where
  "get_big_blind_position g =
     (let active_players = funded_seats g in
        if length active_players < 2 then 1
        else
          let dealer_idx = dealer_position g;
              dealer_pos_in_active =
                (if dealer_idx \<in> set active_players
                 then index_of active_players dealer_idx else 0)
          in
          if length active_players = 2
          then active_players ! ((dealer_pos_in_active + 1) mod length active_players)
          else active_players ! ((dealer_pos_in_active + 2) mod length active_players))"

text \<open>
  \<open>_post_blinds\<close>, the only caller of \<open>Player.post_blind\<close>.  Both blind seats are
  looked up before the first blind is posted; \<open>self.players[i]\<close> raises \<open>IndexError\<close>
  for an index beyond the list.
\<close>

definition post_blinds :: "Game \<Rightarrow> error + Game" where
  "post_blinds g =
     (let active_players = funded_seats g in
        if length active_players < 2 then Inr g
        else
          let small_blind_idx = get_small_blind_position g;
              big_blind_idx = get_big_blind_position g in
          if \<not> small_blind_idx < length (players g) then Inl IndexError
          else
            let small_blind_player = players g ! small_blind_idx in
            case post_blind (heap g small_blind_player) (small_blind g) of
              (small_blind_amount, p1) \<Rightarrow>
                let g1 = g\<lparr>heap := (heap g)(small_blind_player := p1),
                            pot := add_bet (pot g) small_blind_player small_blind_amount\<rparr> in
                if \<not> big_blind_idx < length (players g1) then Inl IndexError
                else
                  let big_blind_player = players g1 ! big_blind_idx in
                  case post_blind (heap g1 big_blind_player) (big_blind g1) of
                    (big_blind_amount, p2) \<Rightarrow>
                      Inr (g1\<lparr>heap := (heap g1)(big_blind_player := p2),
                              pot := add_bet (pot g1) big_blind_player big_blind_amount,
                              game_current_bet := big_blind g1\<rparr>))"

definition set_first_player_to_act :: "Game \<Rightarrow> Game" where
  "set_first_player_to_act g =
     (let active_players = acting_seats g; n = length (players g) in
        if active_players = [] then g
        else if phase g = PRE_FLOP then
          (if n = 2 then g\<lparr>current_player_index := dealer_position g\<rparr>
           else
             let big_blind_pos = get_big_blind_position g in
             case find (\<lambda>next_pos. next_pos \<in> set active_players)
                    (map (\<lambda>i. (big_blind_pos + i) mod n) [1..<n]) of
               Some next_pos \<Rightarrow> g\<lparr>current_player_index := next_pos\<rparr>
             | None \<Rightarrow> g)
        else
          (if n = 2 then
             (let non_dealer = (dealer_position g + 1) mod n in
                if non_dealer \<in> set active_players
                then g\<lparr>current_player_index := non_dealer\<rparr>
                else g\<lparr>current_player_index := dealer_position g\<rparr>)
           else
             let small_blind_pos = get_small_blind_position g in
             case find (\<lambda>check_pos. check_pos \<in> set active_players)
                    (map (\<lambda>i. (small_blind_pos + i) mod n) [0..<n]) of
               Some check_pos \<Rightarrow> g\<lparr>current_player_index := check_pos\<rparr>
             | None \<Rightarrow>
                 (case active_players of
                    [] \<Rightarrow> g
                  | a # _ \<Rightarrow> g\<lparr>current_player_index := a\<rparr>)))"

definition move_to_next_active_player :: "Game \<Rightarrow> Game" where
  "move_to_next_active_player g =
     (let active_players = acting_seats g; n = length (players g) in
        if active_players = [] then g
        else
          let start_pos = current_player_index g in
          case find (\<lambda>next_pos. next_pos \<in> set active_players)
                 (map (\<lambda>i. (start_pos + i) mod n) [1..<n + 1]) of
            Some next_pos \<Rightarrow> g\<lparr>current_player_index := next_pos\<rparr>
          | None \<Rightarrow>
              (case active_players of
                 [] \<Rightarrow> g
               | a # _ \<Rightarrow> g\<lparr>current_player_index := a\<rparr>))"

definition next_player :: "Game \<Rightarrow> Game" where
  "next_player g = move_to_next_active_player g"

text \<open>\<open>get_current_player\<close> returns the player and, as the source does, leaves the
  turn index advanced when the seat it pointed at cannot act.\<close>

definition get_current_player :: "Game \<Rightarrow> pid option \<times> Game" where
  "get_current_player g =
     (if current_player_index g < length (players g) then
        (let current_player = players g ! current_player_index g in
           if \<not> can_act (heap g current_player) then
             (let g1 = move_to_next_active_player g in
                if current_player_index g1 < length (players g1)
                then (Some (players g1 ! current_player_index g1), g1)
                else (None, g1))
           else (Some current_player, g))
      else (None, g))"

definition get_valid_actions :: "Game \<Rightarrow> pid \<Rightarrow> PlayerAction list" where
  "get_valid_actions g player =
     (let p = heap g player in
        if \<not> can_act p then []
        else
          [FOLD]
          @ (if current_bet p = game_current_bet g then [CHECK]
             else
               (let call_amount = game_current_bet g - current_bet p in
                  if call_amount \<le> chips p then [CALL] else []))
          @ (let min_raise_amount = game_current_bet g + min_raise g in
               if chips p \<ge> min_raise_amount - current_bet p then [RAISE] else [])
          @ (if chips p > 0 then [ALL_IN_ACTION] else []))"

definition is_betting_round_complete :: "Game \<Rightarrow> bool" where
  "is_betting_round_complete g =
     (let ps = map (heap g) (players g);
          active_players = filter can_act ps
      in
        if length active_players \<le> 1 then True
        else if list_ex (\<lambda>player. last_action player = None) active_players then False
        else
          let in_hand_players = filter is_in_hand ps in
          if length in_hand_players \<le> 1 then True
          else
            let max_bet = Max (set (map current_bet in_hand_players)) in
            \<not> list_ex (\<lambda>player. status player \<noteq> ALL_IN \<and> current_bet player \<noteq> max_bet)
                 in_hand_players)"

text \<open>
  \<open>_showdown\<close>.  The hands are collected into a dict keyed by player; an exception of
  the evaluator leaves the function.  \<open>evaluate_hand\<close> returns \<open>None\<close> only when its
  loop runs over no combination at all, which for seven cards never happens; the
  comparison of such a value in \<open>max\<close> would raise \<open>TypeError\<close>.
\<close>

fun collect_hands ::
  "Game \<Rightarrow> pid list \<Rightarrow> (pid, HandResult) dict \<Rightarrow> error + (pid, HandResult) dict" where
  "collect_hands g [] player_hands = Inr player_hands"
| "collect_hands g (player # rest) player_hands =
     (case evaluate_hand (hole_cards (heap g player) @ community_cards g) of
        Inl e \<Rightarrow> Inl e
      | Inr None \<Rightarrow> Inl TypeError
      | Inr (Some hand_result) \<Rightarrow>
          collect_hands g rest (dict_set player_hands player hand_result))"

text \<open>Python's \<open>max\<close> keeps the first maximal element: it replaces the candidate
  only by a strictly greater one.\<close>

fun max_hand :: "HandResult \<Rightarrow> HandResult list \<Rightarrow> HandResult" where
  "max_hand best [] = best"
| "max_hand best (h # hs) = max_hand (if hand_gt h best then h else best) hs"

definition determine_winners :: "(pid, HandResult) dict \<Rightarrow> pid list" where
  "determine_winners player_hands =
     (case map snd player_hands of
        [] \<Rightarrow> []
      | v # vs \<Rightarrow>
          (let best_hand = max_hand v vs in
             map fst (filter (\<lambda>(player, hand). hand_eq hand best_hand) player_hands)))"

text \<open>The payout loop of \<open>_showdown\<close> over \<open>enumerate(winners)\<close>.\<close>

fun award_winners ::
  "(pid \<Rightarrow> Player) \<Rightarrow> int \<Rightarrow> int \<Rightarrow> nat \<Rightarrow> pid list \<Rightarrow> (pid \<Rightarrow> Player)" where
  "award_winners h amount_per_winner remainder i [] = h"
| "award_winners h amount_per_winner remainder i (winner # ws) =
     (let amt = (if int i < remainder then amount_per_winner + 1 else amount_per_winner)
      in award_winners (h(winner := win_chips (h winner) amt))
           amount_per_winner remainder (Suc i) ws)"

definition split_pot :: "(pid \<Rightarrow> Player) \<Rightarrow> int \<Rightarrow> pid list \<Rightarrow> (pid \<Rightarrow> Player)" where
  "split_pot h total_pot winners =
     (if winners \<noteq> [] then
        (let amount_per_winner = total_pot div int (length winners);
             remainder = total_pot mod int (length winners)
         in award_winners h amount_per_winner remainder 0 winners)
      else h)"

definition showdown :: "Game \<Rightarrow> error + Game" where
  "showdown g =
     (let active_players = filter (\<lambda>p. is_in_hand (heap g p)) (players g) in
        case active_players of
          [] \<Rightarrow> Inr (g\<lparr>phase := HAND_COMPLETE\<rparr>)
        | [winner] \<Rightarrow>
            Inr (g\<lparr>heap := (heap g)(winner := win_chips (heap g winner) (get_total_pot (pot g))),
                  phase := HAND_COMPLETE\<rparr>)
        | _ \<Rightarrow>
            (case collect_hands g active_players [] of
               Inl e \<Rightarrow> Inl e
             | Inr player_hands \<Rightarrow>
                 (let winners = determine_winners player_hands
                  in Inr (g\<lparr>heap := split_pot (heap g) (get_total_pot (pot g)) winners,
                          phase := HAND_COMPLETE\<rparr>))))"

definition handle_single_winner :: "Game \<Rightarrow> Game" where
  "handle_single_winner g =
     (let players_in_hand = filter (\<lambda>p. is_in_hand (heap g p)) (players g);
          g1 = (case players_in_hand of
                  [winner] \<Rightarrow>
                    g\<lparr>heap := (heap g)(winner :=
                         win_chips (heap g winner) (get_total_pot (pot g)))\<rparr>
                | _ \<Rightarrow> g)
      in g1\<lparr>phase := HAND_COMPLETE\<rparr>)"

definition advance_to_next_phase :: "Game \<Rightarrow> error + Game" where
  "advance_to_next_phase g =
     (let g1 = g\<lparr>heap := fold (\<lambda>player h. h(player := new_betting_round (h player)))
                          (players g) (heap g)\<rparr>;
          g2 = g1\<lparr>game_current_bet := 0, min_raise := big_blind g1\<rparr>;
          r = (if phase g2 = PRE_FLOP then Inr ((deal_flop g2)\<lparr>phase := FLOP\<rparr>)
               else if phase g2 = FLOP then Inr ((deal_turn g2)\<lparr>phase := TURN\<rparr>)
               else if phase g2 = TURN then Inr ((deal_river g2)\<lparr>phase := RIVER\<rparr>)
               else if phase g2 = RIVER then showdown g2
               else Inr g2)
      in case r of
           Inl e \<Rightarrow> Inl e
         | Inr g3 \<Rightarrow>
             if phase g3 = FLOP \<or> phase g3 = TURN \<or> phase g3 = RIVER
             then Inr (set_first_player_to_act g3)
             else Inr g3)"

text \<open>
  The \<open>if/elif\<close> chain of \<open>player_action\<close> that carries the action out: \<open>None\<close> where
  the source returns \<open>False\<close> from inside the chain, otherwise the game after the
  chain.
\<close>

definition apply_action :: "Game \<Rightarrow> pid \<Rightarrow> PlayerAction \<Rightarrow> int \<Rightarrow> Game option" where
  "apply_action g player action amt =
     (let p = heap g player in
        case action of
          FOLD \<Rightarrow> Some (g\<lparr>heap := (heap g)(player := fold_player p)\<rparr>)
        | CHECK \<Rightarrow>
            if current_bet p \<noteq> game_current_bet g then None
            else Some (g\<lparr>heap := (heap g)(player := p\<lparr>last_action := Some CHECK\<rparr>)\<rparr>)
        | CALL \<Rightarrow>
            (case call p (game_current_bet g) of
               (actual_amount, p') \<Rightarrow>
                 Some (g\<lparr>heap := (heap g)(player := p'),
                         pot := add_bet (pot g) player actual_amount\<rparr>))
        | RAISE \<Rightarrow>
            if amt < game_current_bet g + min_raise g then None
            else
              (case raise_bet p amt of
                 (actual_amount, p') \<Rightarrow>
                   (let g1 = g\<lparr>heap := (heap g)(player := p'),
                               pot := add_bet (pot g) player actual_amount\<rparr>;
                        g2 = g1\<lparr>game_current_bet := current_bet p'\<rparr>
                    in Some (g2\<lparr>min_raise := amt - (game_current_bet g2 - actual_amount),
                                last_raiser_index := int (current_player_index g2)\<rparr>)))
        | ALL_IN_ACTION \<Rightarrow>
            (case all_in p of
               (actual_amount, p') \<Rightarrow>
                 (let g1 = g\<lparr>heap := (heap g)(player := p'),
                             pot := add_bet (pot g) player actual_amount\<rparr>
                  in if current_bet p' > game_current_bet g1 then
                       (let old_bet = game_current_bet g1 in
                          Some (g1\<lparr>game_current_bet := current_bet p',
                                  min_raise := current_bet p' - old_bet,
                                  last_raiser_index := int (current_player_index g1)\<rparr>))
                     else Some g1)))"

text \<open>
  \<open>player_action\<close>: \<open>Inr (ok, g')\<close> is the returned flag with the game as the call
  leaves it; \<open>Inl e\<close> is an exception raised out of the showdown.
\<close>

definition player_action ::
  "Game \<Rightarrow> pid \<Rightarrow> PlayerAction \<Rightarrow> int \<Rightarrow> error + (bool \<times> Game)" where
  "player_action g player action amt =
     (if \<not> can_act (heap g player) then Inr (False, g)
      else
        case get_current_player g of
          (current, g0) \<Rightarrow>
            if Some player \<noteq> current then Inr (False, g0)
            else if action \<notin> set (get_valid_actions g0 player) then Inr (False, g0)
            else
              (case apply_action g0 player action amt of
                 None \<Rightarrow> Inr (False, g0)
               | Some g1 \<Rightarrow>
                   (let g2 = next_player g1;
                        players_in_hand =
                          filter (\<lambda>p. is_in_hand (heap g2 p)) (players g2)
                    in
                      if length players_in_hand \<le> 1
                      then Inr (True, handle_single_winner g2)
                      else if is_betting_round_complete g2 then
                        (case advance_to_next_phase g2 of
                           Inl e \<Rightarrow> Inl e
                         | Inr g3 \<Rightarrow> Inr (True, g3))
                      else Inr (True, g2))))"

text \<open>
  The table as \<open>player_action\<close> has it after an accepted action has been carried out
  and the turn has moved on (the state on which it counts the players still in the
  hand).
\<close>

definition table_after_action :: "Game \<Rightarrow> pid \<Rightarrow> PlayerAction \<Rightarrow> int \<Rightarrow> Game" where
  "table_after_action g player action amt =
     next_player (the (apply_action (snd (get_current_player g)) player action amt))"


section \<open>The split of a pot, in terms of seats\<close>





text \<open>What a player finds in the dict \<open>distribute_winnings\<close> returns: the entry, or
  nothing when there is no entry.\<close>

definition winnings_of :: "(pid, int) dict \<Rightarrow> pid \<Rightarrow> int" where
  "winnings_of winnings p = (case dict_get winnings p of None \<Rightarrow> 0 | Some c \<Rightarrow> c)"

section \<open>Example tables\<close>

text \<open>\<open>Card.__init__(suit, rank)\<close>.\<close>

definition Card_init :: "Suit \<Rightarrow> Rank \<Rightarrow> Card" where
  "Card_init s r = \<lparr>suit = s, rank = r\<rparr>"

text \<open>
  Concrete tables for the closed theorems below; seat 0 is Alice in the big blind,
  seat 1 is Bob on the button in the small blind.  \<open>first_hand_dealt\<close> is the first
  hand of a heads-up game after the deal and before the blinds.  \<open>blinds_posted\<close> is the first
  hand of a heads-up game (blinds 10 and 20, Alice with 1000 chips, Bob with 100) as
  \<open>start_new_hand\<close> leaves it, with the hole cards dealt, the blinds in the pot and Bob
  to act; the deck holds the cards still to come, dealt from the end.  In
  \<open>big_blind_unanswered\<close> Bob has moved all-in over the blinds and Alice has not acted
  yet; \<open>big_blind_unanswered_three_way\<close> is the same with a third seat, Carol, who
  has called the 100 and can still act.
\<close>

definition two_seat_game :: "Player \<Rightarrow> Player \<Rightarrow> Game" where
  "two_seat_game a b =
     (Game_init 10 20 ((\<lambda>_. a)(1 := b)))\<lparr>players := [0, 1], phase := PRE_FLOP\<rparr>"

definition first_hand_dealt :: Game where
  "first_hand_dealt =
     (two_seat_game
        ((sit_in (Player_init ''Alice'' 1000 0))
           \<lparr>hole_cards := [Card_init HEARTS TWO, Card_init CLUBS SEVEN], hands_played := 1\<rparr>)
        ((sit_in (Player_init ''Bob'' 100 1))
           \<lparr>hole_cards := [Card_init SPADES ACE, Card_init DIAMONDS ACE], hands_played := 1\<rparr>))
     \<lparr>hand_number := 1, dealer_position := 1\<rparr>"


definition blinds_posted :: Game where
  "blinds_posted =
     (two_seat_game
        ((snd (post_blind (sit_in (Player_init ''Alice'' 1000 0)) 20))
           \<lparr>hole_cards := [Card_init HEARTS TWO, Card_init CLUBS SEVEN], hands_played := 1\<rparr>)
        ((snd (post_blind (sit_in (Player_init ''Bob'' 100 1)) 10))
           \<lparr>hole_cards := [Card_init SPADES ACE, Card_init DIAMONDS ACE], hands_played := 1\<rparr>))
     \<lparr>hand_number := 1,
       deck := [Card_init CLUBS TWO, Card_init CLUBS THREE, Card_init HEARTS NINE,
                Card_init SPADES KING, Card_init DIAMONDS FOUR, Card_init HEARTS TEN],
       pot := add_bet (add_bet \<lparr>main_pot = 0, side_pots = [],
                                 player_contributions = []\<rparr> 1 10) 0 20,
       dealer_position := 1, current_player_index := 1, game_current_bet := 20\<rparr>"

definition big_blind_unanswered :: Game where
  "big_blind_unanswered =
     (two_seat_game
        (snd (post_blind (sit_in (Player_init ''Alice'' 1000 0)) 20))
        (snd (all_in (snd (post_blind (sit_in (Player_init ''Bob'' 100 1)) 10)))))
     \<lparr>game_current_bet := 100\<rparr>"

definition big_blind_unanswered_three_way :: Game where
  "big_blind_unanswered_three_way =
     big_blind_unanswered
       \<lparr>players := [0, 1, 2],
        heap := (heap big_blind_unanswered)
                  (2 := snd (call (sit_in (Player_init ''Carol'' 1000 2)) 100))\<rparr>"

text \<open>The seven cards of the specification's example: the ace, king, queen, jack and
  ten of spades with the two and three of hearts.\<close>

definition royal_seven :: "Card list" where
  "royal_seven =
     [Card_init SPADES ACE, Card_init SPADES KING, Card_init SPADES QUEEN,
      Card_init SPADES JACK, Card_init SPADES TEN, Card_init HEARTS TWO,
      Card_init HEARTS THREE]"




text \<open>
  The ten categories as the specification words them, in its descending priority:
  a flush is five cards of one suit; a straight is five distinct ranks forming a
  contiguous run, or the set 2, 3, 4, 5, ace; \<open>n\<close> of a kind is a rank held by exactly
  \<open>n\<close> of the cards.
\<close>

definition ranks_of :: "Card list \<Rightarrow> int list" where
  "ranks_of cs = map (\<lambda>c. rank_value (rank c)) cs"

definition of_a_kind :: "nat \<Rightarrow> Card list \<Rightarrow> bool" where
  "of_a_kind n cs = (\<exists>r \<in> set (ranks_of cs). count_list (ranks_of cs) r = n)"

definition pairs_in :: "Card list \<Rightarrow> nat" where
  "pairs_in cs = card {r \<in> set (ranks_of cs). count_list (ranks_of cs) r = 2}"

definition same_suit :: "Card list \<Rightarrow> bool" where
  "same_suit cs = (cs \<noteq> [] \<and> (\<forall>c \<in> set cs. suit c = suit (hd cs)))"

definition run_of_five :: "Card list \<Rightarrow> bool" where
  "run_of_five cs =
     (distinct (ranks_of cs)
      \<and> (Max (set (ranks_of cs)) - Min (set (ranks_of cs)) = 4
         \<or> set (ranks_of cs) = {2, 3, 4, 5, 14}))"

definition category_by_priority :: "Card list \<Rightarrow> HandRank" where
  "category_by_priority cs =
     (if same_suit cs \<and> set (ranks_of cs) = {10, 11, 12, 13, 14} then ROYAL_FLUSH
      else if same_suit cs \<and> run_of_five cs then STRAIGHT_FLUSH
      else if of_a_kind 4 cs then FOUR_OF_A_KIND
      else if of_a_kind 3 cs \<and> of_a_kind 2 cs then FULL_HOUSE
      else if same_suit cs then FLUSH
      else if run_of_five cs then STRAIGHT
      else if of_a_kind 3 cs then THREE_OF_A_KIND
      else if pairs_in cs = 2 then TWO_PAIR
      else if of_a_kind 2 cs then ONE_PAIR
      else HIGH_CARD)"

text \<open>Five-card hands for the closed theorems: a nine-high straight flush, the wheel,
  a six-high straight and a pair of aces.\<close>

definition straight_flush_hand :: "Card list" where
  "straight_flush_hand =
     [Card_init HEARTS SEVEN, Card_init HEARTS FIVE, Card_init HEARTS NINE,
      Card_init HEARTS SIX, Card_init HEARTS EIGHT]"

definition wheel_hand :: "Card list" where
  "wheel_hand =
     [Card_init SPADES ACE, Card_init HEARTS TWO, Card_init DIAMONDS THREE,
      Card_init CLUBS FOUR, Card_init HEARTS FIVE]"

definition six_high_straight :: "Card list" where
  "six_high_straight =
     [Card_init HEARTS TWO, Card_init DIAMONDS THREE, Card_init CLUBS FOUR,
      Card_init HEARTS FIVE, Card_init SPADES SIX]"

definition pair_of_aces :: "Card list" where
  "pair_of_aces =
     [Card_init SPADES ACE, Card_init HEARTS ACE, Card_init DIAMONDS KING,
      Card_init CLUBS QUEEN, Card_init HEARTS JACK]"

section \<open>Player operations: conservation and the contribution invariant\<close>

lemma seat_inv_start:
  "0 \<le> chips p \<Longrightarrow> blind_amount_ok blind \<Longrightarrow>
   seat_inv (chips p) (seat_start_hand p dealt blind)"
  by (cases blind)
     (auto simp: seat_inv_def seat_start_hand_def blind_amount_ok_def new_hand_def
        post_blind_def Let_def)

lemma seat_inv_step:
  assumes "seat_inv s0 p"
  shows "seat_inv s0 (apply_seat_op p x)"
proof (cases x)
  case (SeatCall a)
  with assms show ?thesis by (auto simp: seat_inv_def call_def Let_def)
next
  case (SeatRaise a)
  with assms show ?thesis by (auto simp: seat_inv_def raise_bet_def Let_def)
next
  case SeatAllIn
  with assms show ?thesis by (auto simp: seat_inv_def all_in_def Let_def)
next
  case SeatFold
  with assms show ?thesis by (auto simp: seat_inv_def fold_player_def)
next
  case SeatCheck
  with assms show ?thesis by (auto simp: seat_inv_def check_player_def)
next
  case SeatNewRound
  with assms show ?thesis by (auto simp: seat_inv_def new_betting_round_def Let_def)
qed

lemma seat_inv_fold:
  "seat_inv s0 p \<Longrightarrow> seat_inv s0 (foldl apply_seat_op p ops)"
  by (induction ops arbitrary: p) (simp_all add: seat_inv_step)

lemma index_of_nth: "x \<in> set xs \<Longrightarrow> index_of xs x < length xs \<and> xs ! index_of xs x = x"
  by (induction xs) auto

lemma mod_succ_differs: "2 \<le> n \<Longrightarrow> (k + 1) mod n \<noteq> (k + 2) mod (n::nat)"
proof -
  assume n: "2 \<le> n"
  have "(k + 2) mod n = Suc (k + 1) mod n" by simp
  also have "\<dots> = (if Suc ((k + 1) mod n) = n then 0 else Suc ((k + 1) mod n))"
    by (rule mod_Suc)
  finally show ?thesis using n by (auto split: if_splits)
qed

lemma blind_seats_differ:
  assumes "2 \<le> length (funded_seats g)"
  shows "get_small_blind_position g \<noteq> get_big_blind_position g"
proof -
  define xs where "xs = funded_seats g"
  define d where "d = dealer_position g"
  define k where "k = (if d \<in> set xs then index_of xs d else 0)"
  have dist: "distinct xs" by (simp add: xs_def funded_seats_def)
  from assms have n: "2 \<le> length xs" by (simp add: xs_def)
  have k: "k < length xs" using n index_of_nth [of d xs] by (auto simp: k_def)
  from n have pos: "0 < length xs" by linarith
  have i1: "(k + 1) mod length xs < length xs" by (rule mod_less_divisor [OF pos])
  have i2: "(k + 2) mod length xs < length xs" by (rule mod_less_divisor [OF pos])
  show ?thesis
  proof (cases "length xs = 2")
    case True
    have sb: "get_small_blind_position g = d"
      using True by (simp add: get_small_blind_position_def Let_def xs_def d_def)
    have bb: "get_big_blind_position g = xs ! ((k + 1) mod 2)"
      using True by (simp add: get_big_blind_position_def Let_def xs_def d_def k_def)
    show ?thesis
    proof (cases "d \<in> set xs")
      case din: True
      then have "xs ! k = d" using index_of_nth [of d xs] by (simp add: k_def)
      moreover have "(k + 1) mod 2 \<noteq> k" by presburger
      moreover have "(k + 1) mod 2 < length xs" using True by simp
      ultimately have "xs ! ((k + 1) mod 2) \<noteq> d"
        using dist k by (auto simp: nth_eq_iff_index_eq)
      with sb bb show ?thesis by simp
    next
      case False
      have "xs ! ((k + 1) mod 2) \<in> set xs" using True by simp
      with False sb bb show ?thesis by auto
    qed
  next
    case False
    have sb: "get_small_blind_position g = xs ! ((k + 1) mod length xs)"
      using False n by (simp add: get_small_blind_position_def Let_def xs_def d_def k_def)
    have bb: "get_big_blind_position g = xs ! ((k + 2) mod length xs)"
      using False n by (simp add: get_big_blind_position_def Let_def xs_def d_def k_def)
    from mod_succ_differs [OF n, of k] dist i1 i2 sb bb show ?thesis
      by (simp add: nth_eq_iff_index_eq)
  qed
qed


lemma post_blind_fresh:
  "total_bet p = 0 \<Longrightarrow>
   chips (snd (post_blind p c)) + total_bet (snd (post_blind p c)) = chips p + total_bet p"
  by (simp add: post_blind_def Let_def)

lemma post_blinds_conserve:
  assumes d: "distinct (players g)"
    and z: "\<And>s. s \<in> set (players g) \<Longrightarrow> total_bet (heap g s) = 0"
    and r: "post_blinds g = Inr g'"
  shows "chips (heap g' s) + total_bet (heap g' s) = chips (heap g s) + total_bet (heap g s)"
proof (cases "length (funded_seats g) < 2")
  case True
  with r show ?thesis by (simp add: post_blinds_def Let_def)
next
  case False
  define i where "i = get_small_blind_position g"
  define j where "j = get_big_blind_position g"
  define a where "a = players g ! i"
  define b where "b = players g ! j"
  from False have ij: "i \<noteq> j" using blind_seats_differ [of g] by (simp add: i_def j_def)
  from r False have il: "i < length (players g)" and jl: "j < length (players g)"
    by (auto simp: post_blinds_def Let_def i_def j_def split: if_splits prod.splits)
  with d ij have ab: "a \<noteq> b" by (simp add: a_def b_def nth_eq_iff_index_eq)
  from il jl have za: "total_bet (heap g a) = 0" and zb: "total_bet (heap g b) = 0"
    by (simp_all add: a_def b_def z)
  from r False il jl ab have h: "heap g' = (heap g)
      (a := snd (post_blind (heap g a) (small_blind g)),
       b := snd (post_blind (heap g b) (big_blind g)))"
    by (auto simp: post_blinds_def Let_def i_def j_def a_def b_def split: prod.splits)
  show ?thesis
    using post_blind_fresh [OF za, of "small_blind g"] post_blind_fresh [OF zb, of "big_blind g"] ab
    by (simp add: h)
qed

text \<open>
  Claim C9.  \<open>call\<close>, \<open>raise_bet\<close> and \<open>all_in\<close> keep the sum of the player's stack
  and total-hand contribution and return exactly the amount by which the stack went
  down, for every player.  \<open>post_blind\<close>, on a seat as \<open>start_new_hand\<close> hands it
  over (after \<open>new_hand\<close>, the \<open>hands_played\<close> count and the deal), keeps that sum as
  well and returns exactly the amount by which the stack went down.  That is the
  only use the engine makes of it: \<open>_post_blinds\<close> posts the two blinds on two
  different seats, so that on a table where no seated player has contributed yet, as
  after \<open>new_hand\<close>, every player's stack plus total-hand contribution is the same
  after \<open>_post_blinds\<close> as before.  For a player
  whose stack at hand start is a non-negative integer (what the specification's
  Player data model requires of a stack) and a blind that is a non-negative number
  of chips, the hand from \<open>start_new_hand\<close> on, with or without a blind posted and
  through every sequence of calls, raises, all-ins, folds, checks and new betting
  rounds, keeps current-round contribution \<open>\<le>\<close> total-hand contribution \<open>\<le>\<close> the
  stack held at hand start, and the stack plus the total-hand contribution equal to
  the stack held at hand start.
\<close>

theorem chip_moves_conserve:
  "(case call p a of (x, p') \<Rightarrow>
      chips p' + total_bet p' = chips p + total_bet p \<and> x = chips p - chips p')
   \<and> (case raise_bet p b of (x, p') \<Rightarrow>
      chips p' + total_bet p' = chips p + total_bet p \<and> x = chips p - chips p')
   \<and> (case all_in p of (x, p') \<Rightarrow>
      chips p' + total_bet p' = chips p + total_bet p \<and> x = chips p - chips p')
   \<and> (case post_blind (seat_start_hand p dealt None) c of (x, p') \<Rightarrow>
      chips p' + total_bet p'
        = chips (seat_start_hand p dealt None) + total_bet (seat_start_hand p dealt None)
      \<and> x = chips (seat_start_hand p dealt None) - chips p')
   \<and> (0 \<le> chips p \<longrightarrow> blind_amount_ok blind \<longrightarrow>
        current_bet (foldl apply_seat_op (seat_start_hand p dealt blind) ops)
          \<le> total_bet (foldl apply_seat_op (seat_start_hand p dealt blind) ops)
        \<and> total_bet (foldl apply_seat_op (seat_start_hand p dealt blind) ops) \<le> chips p
        \<and> chips (foldl apply_seat_op (seat_start_hand p dealt blind) ops)
            + total_bet (foldl apply_seat_op (seat_start_hand p dealt blind) ops) = chips p)
   \<and> (distinct (players g) \<longrightarrow> (\<forall>s \<in> set (players g). total_bet (heap g s) = 0) \<longrightarrow>
        post_blinds g = Inr g' \<longrightarrow>
        chips (heap g' q) + total_bet (heap g' q) = chips (heap g q) + total_bet (heap g q))"
proof -
  have trace: "seat_inv (chips p) (foldl apply_seat_op (seat_start_hand p dealt blind) ops)"
    if "0 \<le> chips p" and "blind_amount_ok blind"
    using that by (simp add: seat_inv_fold seat_inv_start)
  have c1: "case call p a of (x, p') \<Rightarrow>
      chips p' + total_bet p' = chips p + total_bet p \<and> x = chips p - chips p'"
    by (simp add: call_def Let_def)
  have c2: "case raise_bet p b of (x, p') \<Rightarrow>
      chips p' + total_bet p' = chips p + total_bet p \<and> x = chips p - chips p'"
    by (simp add: raise_bet_def Let_def)
  have c3: "case all_in p of (x, p') \<Rightarrow>
      chips p' + total_bet p' = chips p + total_bet p \<and> x = chips p - chips p'"
    by (simp add: all_in_def Let_def)
  have c4: "case post_blind (seat_start_hand p dealt None) c of (x, p') \<Rightarrow>
      chips p' + total_bet p'
        = chips (seat_start_hand p dealt None) + total_bet (seat_start_hand p dealt None)
      \<and> x = chips (seat_start_hand p dealt None) - chips p'"
    by (simp add: post_blind_def seat_start_hand_def new_hand_def Let_def)
  from trace have c5: "0 \<le> chips p \<longrightarrow> blind_amount_ok blind \<longrightarrow>
        current_bet (foldl apply_seat_op (seat_start_hand p dealt blind) ops)
          \<le> total_bet (foldl apply_seat_op (seat_start_hand p dealt blind) ops)
        \<and> total_bet (foldl apply_seat_op (seat_start_hand p dealt blind) ops) \<le> chips p
        \<and> chips (foldl apply_seat_op (seat_start_hand p dealt blind) ops)
            + total_bet (foldl apply_seat_op (seat_start_hand p dealt blind) ops) = chips p"
    by (auto simp: seat_inv_def)
  have c6: "distinct (players g) \<longrightarrow> (\<forall>s \<in> set (players g). total_bet (heap g s) = 0) \<longrightarrow>
        post_blinds g = Inr g' \<longrightarrow>
        chips (heap g' q) + total_bet (heap g' q) = chips (heap g q) + total_bet (heap g q)"
    using post_blinds_conserve [of g g' q] by blast
  from c1 c2 c3 c4 c5 c6 show ?thesis by (intro conjI)
qed

theorem chip_moves_conserve_witness:
  "0 \<le> chips (Player_init ''Alice'' 100 0)
   \<and> blind_amount_ok (Some 10)
   \<and> fst (post_blind (seat_start_hand (Player_init ''Alice'' 100 0) [] None) 10) = 10
   \<and> chips (snd (post_blind (seat_start_hand (Player_init ''Alice'' 100 0) [] None) 10)) = 90
   \<and> total_bet (snd (post_blind (seat_start_hand (Player_init ''Alice'' 100 0) [] None) 10)) = 10
   \<and> chips (foldl apply_seat_op (seat_start_hand (Player_init ''Alice'' 100 0) [] (Some 10))
        [SeatCall 20, SeatNewRound, SeatRaise 40, SeatNewRound, SeatAllIn])
      + total_bet (foldl apply_seat_op (seat_start_hand (Player_init ''Alice'' 100 0) [] (Some 10))
        [SeatCall 20, SeatNewRound, SeatRaise 40, SeatNewRound, SeatAllIn]) = 100
   \<and> total_bet (foldl apply_seat_op (seat_start_hand (Player_init ''Alice'' 100 0) [] (Some 10))
        [SeatCall 20, SeatNewRound, SeatRaise 40, SeatNewRound, SeatAllIn]) = 100
   \<and> distinct (players first_hand_dealt)
   \<and> list_all (\<lambda>s. total_bet (heap first_hand_dealt s) = 0) (players first_hand_dealt)
   \<and> (\<exists>g'. post_blinds first_hand_dealt = Inr g'
          \<and> chips (heap g' 0) + total_bet (heap g' 0) = 1000
          \<and> chips (heap g' 1) + total_bet (heap g' 1) = 100)"
proof -
  note T = chip_moves_conserve [where p = "Player_init ''Alice'' 100 0" and a = 20 and b = 40
      and dealt = "[]" and c = 10 and blind = "Some 10"
      and ops = "[SeatCall 20, SeatNewRound, SeatRaise 40, SeatNewRound, SeatAllIn]"
      and g = first_hand_dealt]
  have seat: "0 \<le> chips (Player_init ''Alice'' 100 0)
   \<and> blind_amount_ok (Some 10)
   \<and> fst (post_blind (seat_start_hand (Player_init ''Alice'' 100 0) [] None) 10) = 10
   \<and> chips (snd (post_blind (seat_start_hand (Player_init ''Alice'' 100 0) [] None) 10)) = 90
   \<and> total_bet (snd (post_blind (seat_start_hand (Player_init ''Alice'' 100 0) [] None) 10)) = 10
   \<and> chips (foldl apply_seat_op (seat_start_hand (Player_init ''Alice'' 100 0) [] (Some 10))
        [SeatCall 20, SeatNewRound, SeatRaise 40, SeatNewRound, SeatAllIn])
      + total_bet (foldl apply_seat_op (seat_start_hand (Player_init ''Alice'' 100 0) [] (Some 10))
        [SeatCall 20, SeatNewRound, SeatRaise 40, SeatNewRound, SeatAllIn]) = 100
   \<and> total_bet (foldl apply_seat_op (seat_start_hand (Player_init ''Alice'' 100 0) [] (Some 10))
        [SeatCall 20, SeatNewRound, SeatRaise 40, SeatNewRound, SeatAllIn]) = 100"
    using T
    by (simp add: Player_init_def blind_amount_ok_def seat_start_hand_def new_hand_def
          post_blind_def call_def raise_bet_def all_in_def new_betting_round_def Let_def)
  have table: "distinct (players first_hand_dealt)
     \<and> list_all (\<lambda>s. total_bet (heap first_hand_dealt s) = 0) (players first_hand_dealt)
     \<and> \<not> isl (post_blinds first_hand_dealt)
     \<and> chips (heap first_hand_dealt 0) + total_bet (heap first_hand_dealt 0) = 1000
     \<and> chips (heap first_hand_dealt 1) + total_bet (heap first_hand_dealt 1) = 100"
    by code_simp
  then obtain g' where g': "post_blinds first_hand_dealt = Inr g'"
    by (cases "post_blinds first_hand_dealt") auto
  from table have zero: "\<forall>s \<in> set (players first_hand_dealt). total_bet (heap first_hand_dealt s) = 0"
    by (simp add: list_all_iff)
  from T [where g' = g' and q = 0] T [where g' = g' and q = 1] table zero g'
  have "chips (heap g' 0) + total_bet (heap g' 0) = 1000
        \<and> chips (heap g' 1) + total_bet (heap g' 1) = 100"
    by simp
  with g' seat table show ?thesis by blast
qed

section \<open>Legal actions and the end of a betting round\<close>

lemmas ex_defs = two_seat_game_def Game_init_def sit_in_def Player_init_def post_blind_def
  all_in_def call_def can_act_def is_in_hand_def Let_def

text \<open>
  Claim C3, as the code has it.  For a player who can act: Fold is always legal;
  Check is legal iff the player's current-round contribution equals the table bet;
  Call is legal iff it differs from the table bet and the player's stack covers the
  whole gap; Raise is legal iff the stack covers the table bet plus the minimum raise,
  less what the player has already put in this round; All-In is legal iff the player
  holds chips.
\<close>

theorem valid_actions_characterised:
  "can_act (heap g player) \<Longrightarrow>
     FOLD \<in> set (get_valid_actions g player)
   \<and> (CHECK \<in> set (get_valid_actions g player)
        \<longleftrightarrow> current_bet (heap g player) = game_current_bet g)
   \<and> (CALL \<in> set (get_valid_actions g player)
        \<longleftrightarrow> current_bet (heap g player) \<noteq> game_current_bet g
            \<and> game_current_bet g - current_bet (heap g player) \<le> chips (heap g player))
   \<and> (RAISE \<in> set (get_valid_actions g player)
        \<longleftrightarrow> game_current_bet g + min_raise g - current_bet (heap g player)
              \<le> chips (heap g player))
   \<and> (ALL_IN_ACTION \<in> set (get_valid_actions g player)
        \<longleftrightarrow> 0 < chips (heap g player))"
  by (simp add: get_valid_actions_def Let_def)

theorem valid_actions_characterised_witness:
  "can_act (heap ((Game_init 10 20 (\<lambda>_. sit_in (Player_init ''Alice'' 1000 0)))
                    \<lparr>game_current_bet := 20\<rparr>) 0)
   \<and> set (get_valid_actions ((Game_init 10 20 (\<lambda>_. sit_in (Player_init ''Alice'' 1000 0)))
                    \<lparr>game_current_bet := 20\<rparr>) 0) = {FOLD, CALL, RAISE, ALL_IN_ACTION}"
  using valid_actions_characterised
    [of "(Game_init 10 20 (\<lambda>_. sit_in (Player_init ''Alice'' 1000 0)))\<lparr>game_current_bet := 20\<rparr>" 0]
  by (simp add: Game_init_def sit_in_def Player_init_def can_act_def get_valid_actions_def)

text \<open>
  Claim C3 as stated fails for Call: a player who can act, holds 50 chips and faces
  a table bet of 100 has a non-zero gap and has chips, yet Call is not among the
  legal actions (only Fold and All-In are).
\<close>

theorem short_stack_cannot_call:
  "can_act (heap ((Game_init 10 20 (\<lambda>_. sit_in (Player_init ''Bob'' 50 0)))
                    \<lparr>game_current_bet := 100\<rparr>) 0)
   \<and> current_bet (heap ((Game_init 10 20 (\<lambda>_. sit_in (Player_init ''Bob'' 50 0)))
                    \<lparr>game_current_bet := 100\<rparr>) 0)
       \<noteq> game_current_bet ((Game_init 10 20 (\<lambda>_. sit_in (Player_init ''Bob'' 50 0)))
                    \<lparr>game_current_bet := 100\<rparr>)
   \<and> 0 < chips (heap ((Game_init 10 20 (\<lambda>_. sit_in (Player_init ''Bob'' 50 0)))
                    \<lparr>game_current_bet := 100\<rparr>) 0)
   \<and> CALL \<notin> set (get_valid_actions ((Game_init 10 20 (\<lambda>_. sit_in (Player_init ''Bob'' 50 0)))
                    \<lparr>game_current_bet := 100\<rparr>) 0)"
  by (simp add: Game_init_def sit_in_def Player_init_def can_act_def get_valid_actions_def)

text \<open>
  What \<open>_is_betting_round_complete\<close> computes: the round is judged complete iff at
  most one seated player can act, or else every seated player who can act has taken
  an action this round and every in-hand player who is not all-in has a current-round
  contribution equal to the maximum current-round contribution among the in-hand
  players.
\<close>

lemma betting_round_complete_iff:
  "is_betting_round_complete g \<longleftrightarrow>
     length (filter can_act (map (heap g) (players g))) \<le> 1
   \<or> ((\<forall>p \<in> set (map (heap g) (players g)). can_act p \<longrightarrow> last_action p \<noteq> None)
      \<and> (\<forall>p \<in> set (map (heap g) (players g)).
            is_in_hand p \<and> status p \<noteq> ALL_IN \<longrightarrow>
            current_bet p
              = Max (set (map current_bet (filter is_in_hand (map (heap g) (players g)))))))"
proof -
  let ?ps = "map (heap g) (players g)"
  have sub: "length (filter can_act ?ps) \<le> length (filter is_in_hand ?ps)"
  proof -
    have "filter can_act ?ps = filter can_act (filter is_in_hand ?ps)"
      by (auto simp: can_act_def is_in_hand_def intro: filter_cong)
    then show ?thesis by (metis length_filter_le)
  qed
  show ?thesis
  proof (cases "length (filter can_act ?ps) \<le> 1")
    case True
    then show ?thesis by (simp add: is_betting_round_complete_def Let_def)
  next
    case False
    with sub have "\<not> length (filter is_in_hand ?ps) \<le> 1" by linarith
    with False show ?thesis
      by (auto simp: is_betting_round_complete_def Let_def list_ex_iff)
  qed
qed

text \<open>
  Claim C2 does not hold of the code, and the code is at fault.
  \<open>_is_betting_round_complete\<close> answers \<open>True\<close> as soon as at most one seat can act,
  before it looks at who has acted and at the bets, although its own comments ask for
  every player who can act to have acted and to match the highest bet.  Heads-up, with
  Bob all-in for 100 over Alice's big blind of 20: Alice can act, has taken no action
  this round, has 20 in against a maximum of 100, and Call is among her legal actions,
  yet the round is judged complete; with a third seat that can still act, the same
  function judges the same situation not complete.  In play, from the table with the
  blinds posted: Bob's all-in is accepted, the round closes at once, the flop is dealt
  and the table bet is back at 0, so Alice is never asked for the missing 80.  She
  stays in a pot of 120 with 20 put in, and Call is no longer among her legal
  actions.
\<close>

theorem lone_actor_round_complete:
  "is_betting_round_complete big_blind_unanswered
   \<and> can_act (heap big_blind_unanswered 0)
   \<and> last_action (heap big_blind_unanswered 0) = None
   \<and> current_bet (heap big_blind_unanswered 0) = 20
   \<and> Max (set (map current_bet (filter is_in_hand
        (map (heap big_blind_unanswered) (players big_blind_unanswered))))) = 100
   \<and> get_valid_actions big_blind_unanswered 0 = [FOLD, CALL, RAISE, ALL_IN_ACTION]
   \<and> \<not> is_betting_round_complete big_blind_unanswered_three_way
   \<and> (case player_action blinds_posted 1 ALL_IN_ACTION 0 of
         Inl e \<Rightarrow> False
       | Inr (ok, g') \<Rightarrow>
           ok \<and> phase g' = FLOP \<and> length (community_cards g') = 3
           \<and> game_current_bet g' = 0
           \<and> main_pot (pot g') = 120
           \<and> status (heap g' 0) = ACTIVE
           \<and> total_bet (heap g' 0) = 20 \<and> chips (heap g' 0) = 980
           \<and> status (heap g' 1) = ALL_IN
           \<and> total_bet (heap g' 1) = 100 \<and> chips (heap g' 1) = 0
           \<and> get_valid_actions g' 0 = [FOLD, CHECK, RAISE, ALL_IN_ACTION])"
  by code_simp

section \<open>The rank counter\<close>

lemma counter_add_sum: "sum_list (map snd (counter_add r kvs)) = Suc (sum_list (map snd kvs))"
  by (induction kvs) auto

lemma counter_add_pos:
  "list_all (\<lambda>x. 0 < snd x) kvs \<Longrightarrow> list_all (\<lambda>x. 0 < snd x) (counter_add r kvs)"
  by (induction kvs) auto

lemma counter_add_keys_set: "set (map fst (counter_add r kvs)) = insert r (set (map fst kvs))"
  by (induction kvs) force+

lemma counter_add_distinct:
  "distinct (map fst kvs) \<Longrightarrow> distinct (map fst (counter_add r kvs))"
proof (induction kvs)
  case Nil
  then show ?case by simp
next
  case (Cons kv kvs)
  obtain k c where kv: "kv = (k, c)" by (cases kv)
  from Cons kv counter_add_keys_set [of r kvs] show ?case by auto
qed

lemma counter_add_map_of:
  "map_of (counter_add r kvs) k =
     (if k = r then Some (case map_of kvs r of None \<Rightarrow> 1 | Some c \<Rightarrow> c + 1) else map_of kvs k)"
  by (induction kvs) auto

lemma fold_counter_sum:
  "sum_list (map snd (fold counter_add rs acc)) = length rs + sum_list (map snd acc)"
  by (induction rs arbitrary: acc) (simp_all add: counter_add_sum)

lemma fold_counter_pos:
  "list_all (\<lambda>x. 0 < snd x) acc \<Longrightarrow> list_all (\<lambda>x. 0 < snd x) (fold counter_add rs acc)"
  by (induction rs arbitrary: acc) (simp_all add: counter_add_pos)

lemma fold_counter_distinct:
  "distinct (map fst acc) \<Longrightarrow> distinct (map fst (fold counter_add rs acc))"
  by (induction rs arbitrary: acc) (simp_all add: counter_add_distinct)

lemma fold_counter_map_of:
  "map_of (fold counter_add rs acc) k =
     (if count_list rs k = 0 then map_of acc k
      else Some (count_list rs k + (case map_of acc k of None \<Rightarrow> 0 | Some c \<Rightarrow> c)))"
  by (induction rs arbitrary: acc) (auto simp: counter_add_map_of split: option.splits)

lemma Counter_sum: "sum_list (map snd (Counter rs)) = length rs"
  by (simp add: Counter_def fold_counter_sum)

lemma Counter_pos: "x \<in> set (Counter rs) \<Longrightarrow> 0 < snd x"
  using fold_counter_pos [of "[]" rs] by (simp add: Counter_def list_all_iff)

lemma Counter_distinct: "distinct (map fst (Counter rs))"
  by (simp add: Counter_def fold_counter_distinct)

lemma Counter_mem: "(k, c) \<in> set (Counter rs) \<longleftrightarrow> k \<in> set rs \<and> c = count_list rs k"
proof -
  have "(k, c) \<in> set (Counter rs) \<longleftrightarrow> map_of (Counter rs) k = Some c"
    using Counter_distinct by (metis map_of_eq_Some_iff)
  also have "\<dots> \<longleftrightarrow> k \<in> set rs \<and> c = count_list rs k"
    by (auto simp: Counter_def fold_counter_map_of count_list_0_iff)
  finally show ?thesis .
qed

lemma sum_one_has_unit:
  fixes f :: "'a \<Rightarrow> nat"
  assumes "sum_list (map f xs) = 1" and "\<And>x. x \<in> set xs \<Longrightarrow> 0 < f x"
  shows "\<exists>x \<in> set xs. f x = 1"
proof (cases xs)
  case Nil
  with assms(1) show ?thesis by simp
next
  case (Cons x rest)
  with assms(2) [of x] have "0 < f x" by simp
  with assms(1) Cons have "f x = 1" by simp
  with Cons show ?thesis by auto
qed

lemma sum_list_partition:
  fixes f :: "'a \<Rightarrow> nat"
  shows "sum_list (map f xs)
         = sum_list (map f (filter P xs)) + sum_list (map f (filter (\<lambda>x. \<not> P x) xs))"
  by (induction xs) auto

lemma sum_list_const:
  fixes f :: "'a \<Rightarrow> nat"
  shows "(\<And>x. x \<in> set xs \<Longrightarrow> f x = c) \<Longrightarrow> sum_list (map f xs) = c * length xs"
  by (induction xs) auto

text \<open>In a counter over five items, a rank counted four times, or two ranks counted
  twice each, leave exactly one item over, so a rank counted once exists.\<close>

lemma kicker_exists:
  assumes len: "sum_list (map snd rc) = 5"
    and pos: "\<And>x. x \<in> set rc \<Longrightarrow> 0 < snd x"
    and P: "sum_list (map snd (filter P rc)) = 4"
  shows "ranks_with_count 1 rc \<noteq> []"
proof -
  let ?rest = "filter (\<lambda>x. \<not> P x) rc"
  from sum_list_partition [of snd rc P] len P have "sum_list (map snd ?rest) = 1" by simp
  moreover have "\<And>x. x \<in> set ?rest \<Longrightarrow> 0 < snd x" using pos by simp
  ultimately obtain x where x: "x \<in> set ?rest" and one: "snd x = 1"
    using sum_one_has_unit by blast
  from x have "x \<in> set rc" by simp
  with one have "x \<in> set (filter (\<lambda>(r, c). c = 1) rc)" by (cases x) simp
  then have "filter (\<lambda>(r, c). c = 1) rc \<noteq> []" by (metis empty_iff empty_set)
  then show ?thesis by (simp add: ranks_with_count_def)
qed

lemma rank_counts_sum: "sum_list (map snd (rank_counts_of cs)) = length cs"
  by (simp add: rank_counts_of_def Counter_sum)

lemma rank_counts_pos: "x \<in> set (rank_counts_of cs) \<Longrightarrow> 0 < snd x"
  unfolding rank_counts_of_def by (rule Counter_pos)

lemma find_Some_mem: "find P xs = Some x \<Longrightarrow> P x \<and> x \<in> set xs"
  by (induction xs) (auto split: if_splits)

lemma four_kind_kicker:
  assumes "length cs = 5" and "find (\<lambda>(r, c). c = 4) (rank_counts_of cs) = Some (r, c)"
  shows "ranks_with_count 1 (rank_counts_of cs) \<noteq> []"
proof -
  let ?rc = "rank_counts_of cs"
  let ?four = "filter (\<lambda>x. snd x = 4) ?rc"
  from find_Some_mem [OF assms(2)] have mem: "(r, c) \<in> set ?rc" and c: "c = 4" by auto
  then have "(r, c) \<in> set ?four" by simp
  then have ge: "1 \<le> length ?four" by (metis length_pos_if_in_set less_eq_Suc_le One_nat_def)
  have s4: "sum_list (map snd ?four) = 4 * length ?four"
    by (rule sum_list_const) simp
  from sum_list_partition [of snd ?rc "\<lambda>x. snd x = 4"] rank_counts_sum [of cs] assms(1)
  have "sum_list (map snd ?four) \<le> 5" by simp
  with s4 ge have "sum_list (map snd ?four) = 4" by simp
  with kicker_exists [of ?rc "\<lambda>x. snd x = 4"] rank_counts_sum [of cs] assms(1)
    rank_counts_pos [of _ cs]
  show ?thesis by simp
qed

lemma two_pair_kicker:
  assumes "length cs = 5" and "length (ranks_with_count 2 (rank_counts_of cs)) = 2"
  shows "ranks_with_count 1 (rank_counts_of cs) \<noteq> []"
proof -
  let ?rc = "rank_counts_of cs"
  let ?two = "filter (\<lambda>x. snd x = 2) ?rc"
  have "(\<lambda>(r, c). c = 2) = (\<lambda>x :: int \<times> nat. snd x = 2)" by auto
  with assms(2) have "length ?two = 2" by (simp add: ranks_with_count_def)
  moreover have "sum_list (map snd ?two) = 2 * length ?two"
    by (rule sum_list_const) simp
  ultimately have "sum_list (map snd ?two) = 4" by simp
  with kicker_exists [of ?rc "\<lambda>x. snd x = 2"] rank_counts_sum [of cs] assms(1)
    rank_counts_pos [of _ cs]
  show ?thesis by simp
qed

lemma check_four_total:
  "length cs = 5 \<Longrightarrow> \<exists>r. check_four_of_a_kind cs = Inr r"
  using four_kind_kicker [of cs]
  by (auto simp: check_four_of_a_kind_def Let_def split: option.splits list.splits)

lemma check_two_pair_total:
  "length cs = 5 \<Longrightarrow> \<exists>r. check_two_pair cs = Inr r"
  using two_pair_kicker [of cs]
  by (auto simp: check_two_pair_def Let_def split: list.splits)

lemma is_straight_total: "cs \<noteq> [] \<Longrightarrow> \<exists>b. is_straight cs = Inr b"
proof -
  assume "cs \<noteq> []"
  then have "sort (map (\<lambda>c. rank_value (rank c)) cs) \<noteq> []"
    by (metis length_0_conv length_map length_sort)
  then show ?thesis
    by (auto simp: is_straight_def Let_def split: list.splits)
qed

lemma high_card_total: "cs \<noteq> [] \<Longrightarrow> \<exists>h. get_straight_high_card cs = Inr h"
proof -
  assume "cs \<noteq> []"
  then have "sort (map (\<lambda>c. rank_value (rank c)) cs) \<noteq> []"
    by (metis length_0_conv length_map length_sort)
  then show ?thesis
    by (auto simp: get_straight_high_card_def Let_def)
qed

lemma length_sort_cards_desc: "length (sort_cards_desc cs) = length cs"
  by (simp add: sort_cards_desc_def)

lemma evaluate_five_total:
  assumes "length cs = 5"
  shows "\<exists>r. evaluate_five_cards cs = Inr r"
proof -
  let ?s = "sort_cards_desc cs"
  from assms have l: "length ?s = 5" by (simp add: length_sort_cards_desc)
  then have ne: "?s \<noteq> []" by auto
  from is_straight_total [OF ne] obtain b where b: "is_straight ?s = Inr b" by blast
  from high_card_total [OF ne] obtain h where h: "get_straight_high_card ?s = Inr h" by blast
  from check_four_total [OF l] obtain f where f: "check_four_of_a_kind ?s = Inr f" by blast
  from check_two_pair_total [OF l] obtain t where t: "check_two_pair ?s = Inr t" by blast
  show ?thesis
    using assms b h f t
    by (simp add: evaluate_five_cards_def Let_def is_straight_flush_def
        split: option.splits bool.splits)
qed


section \<open>The seven-card evaluator\<close>

lemma combinations_length: "c \<in> set (combinations xs k) \<Longrightarrow> length c = k"
  by (induction xs k arbitrary: c rule: combinations.induct) auto

lemma combinations_nonempty: "k \<le> length xs \<Longrightarrow> combinations xs k \<noteq> []"
  by (induction xs k rule: combinations.induct) auto

lemma best_hand_loop_some:
  "(\<And>c. c \<in> set fives \<Longrightarrow> length c = 5) \<Longrightarrow>
   \<exists>r. best_hand_loop (Some b) fives = Inr (Some r)"
proof (induction fives arbitrary: b)
  case Nil
  then show ?case by simp
next
  case (Cons five rest)
  from Cons.prems have "length five = 5" by simp
  from evaluate_five_total [OF this] obtain r where r: "evaluate_five_cards five = Inr r"
    by blast
  from Cons.prems have rest: "\<And>c. c \<in> set rest \<Longrightarrow> length c = 5" by simp
  from Cons.IH [where b = r, OF rest] Cons.IH [where b = b, OF rest] r show ?case by simp
qed

lemma best_hand_loop_none:
  assumes "\<And>c. c \<in> set fives \<Longrightarrow> length c = 5" and "fives \<noteq> []"
  shows "\<exists>r. best_hand_loop None fives = Inr (Some r)"
proof (cases fives)
  case Nil
  with assms(2) show ?thesis by simp
next
  case (Cons five rest)
  with assms(1) have "length five = 5" by simp
  from evaluate_five_total [OF this] obtain r where r: "evaluate_five_cards five = Inr r"
    by blast
  from assms(1) Cons have "\<And>c. c \<in> set rest \<Longrightarrow> length c = 5" by simp
  from best_hand_loop_some [where b = r, OF this] r Cons show ?thesis by simp
qed

text \<open>
  Claim C10.  On a list of cards whose length is not 7, \<open>evaluate_hand\<close> raises
  \<open>ValueError\<close> and yields no result; on a list of exactly 7 cards it returns a hand
  result (neither an exception nor \<open>None\<close>).
\<close>

theorem evaluate_hand_seven_only:
  "(length cs \<noteq> 7 \<longrightarrow> evaluate_hand cs = Inl ValueError)
   \<and> (length cs = 7 \<longrightarrow> (\<exists>r. evaluate_hand cs = Inr (Some r)))"
proof (intro conjI impI)
  assume "length cs \<noteq> 7"
  then show "evaluate_hand cs = Inl ValueError" by (simp add: evaluate_hand_def)
next
  assume l: "length cs = 7"
  then have "combinations cs 5 \<noteq> []" by (intro combinations_nonempty) simp
  with best_hand_loop_none [of "combinations cs 5"] combinations_length [of _ cs 5] l
  show "\<exists>r. evaluate_hand cs = Inr (Some r)" by (simp add: evaluate_hand_def)
qed

theorem evaluate_hand_seven_only_witness:
  "length royal_seven = 7
   \<and> (\<exists>r. evaluate_hand royal_seven = Inr (Some r))
   \<and> length (tl royal_seven) \<noteq> 7
   \<and> evaluate_hand (tl royal_seven) = Inl ValueError"
  using evaluate_hand_seven_only [of royal_seven] evaluate_hand_seven_only [of "tl royal_seven"]
  by (simp add: royal_seven_def)

section \<open>Splitting a pot among tied winners\<close>




lemma dict_get_set: "dict_get (dict_set d k v) k' = (if k' = k then Some v else dict_get d k')"
  by (induction d) (auto simp: dict_get_def)


subsection \<open>The order of hands and the best hand\<close>











subsection \<open>The showdown and its winners\<close>














subsection \<open>Shares\<close>









lemma award_winners_hands_won:
  "distinct ws \<Longrightarrow>
   hands_won (award_winners h apw rem j ws p) = hands_won (h p) + (if p \<in> set ws then 1 else 0)"
  by (induction ws arbitrary: h j) (auto simp: Let_def win_chips_def)





lemma winnings_of_set:
  "winnings_of (dict_set d k v) p = (if p = k then v else winnings_of d p)"
  by (simp add: winnings_of_def dict_get_set)










section \<open>A single player left in the hand\<close>

lemma move_to_next_active_player_index:
  "move_to_next_active_player g
     = g\<lparr>current_player_index := current_player_index (move_to_next_active_player g)\<rparr>"
  by (simp add: move_to_next_active_player_def Let_def split: option.splits list.splits)

lemma get_current_player_index:
  "snd (get_current_player g)
     = g\<lparr>current_player_index := current_player_index (snd (get_current_player g))\<rparr>"
proof -
  have "snd (get_current_player g) = g \<or> snd (get_current_player g) = move_to_next_active_player g"
    by (simp add: get_current_player_def Let_def)
  then show ?thesis
  proof
    assume "snd (get_current_player g) = g"
    then show ?thesis by simp
  next
    assume e: "snd (get_current_player g) = move_to_next_active_player g"
    show ?thesis unfolding e by (rule move_to_next_active_player_index)
  qed
qed

lemma apply_action_board:
  "apply_action g player action amt = Some g1 \<Longrightarrow>
   community_cards g1 = community_cards g \<and> deck g1 = deck g \<and> players g1 = players g
   \<and> phase g1 = phase g"
  by (cases action)
     (auto simp: apply_action_def Let_def split: if_splits prod.splits)

lemma table_after_action_board:
  assumes "apply_action (snd (get_current_player g)) player action amt = Some g1"
  shows "community_cards (table_after_action g player action amt) = community_cards g
     \<and> deck (table_after_action g player action amt) = deck g
     \<and> players (table_after_action g player action amt) = players g"
proof -
  let ?g0 = "snd (get_current_player g)"
  have t: "table_after_action g player action amt = move_to_next_active_player g1"
    using assms by (simp add: table_after_action_def next_player_def)
  have a: "community_cards (move_to_next_active_player g1) = community_cards g1
      \<and> deck (move_to_next_active_player g1) = deck g1
      \<and> players (move_to_next_active_player g1) = players g1"
    by (subst (1 2 3) move_to_next_active_player_index) simp
  have b: "community_cards ?g0 = community_cards g \<and> deck ?g0 = deck g \<and> players ?g0 = players g"
    by (subst (1 2 3) get_current_player_index) simp
  from apply_action_board [OF assms] a b t show ?thesis by simp
qed

text \<open>
  Claim C5.  When \<open>player_action\<close> accepts an action and, once the action is carried
  out, at most one seated player is still in the hand, the call ends the hand: the
  phase is \<open>HAND_COMPLETE\<close>, the community cards and the deck are as they were before
  the call (nothing further is dealt), the pot ledger is as the action left it, every
  player keeps the status held after the action, and the store of players is as the
  action left it except that the one player still in the hand, if there is one, has
  won the whole pot (\<open>win_chips\<close> with \<open>get_total_pot\<close>).
\<close>

theorem single_survivor_takes_pot:
  assumes ok: "player_action g player action amt = Inr (True, g')"
    and one: "length (filter (\<lambda>p. is_in_hand (heap (table_after_action g player action amt) p))
                 (players (table_after_action g player action amt))) \<le> 1"
  shows "phase g' = HAND_COMPLETE
     \<and> community_cards g' = community_cards g
     \<and> deck g' = deck g
     \<and> pot g' = pot (table_after_action g player action amt)
     \<and> status (heap g' p) = status (heap (table_after_action g player action amt) p)
     \<and> heap g' =
         (case filter (\<lambda>p. is_in_hand (heap (table_after_action g player action amt) p))
                 (players (table_after_action g player action amt)) of
            [winner] \<Rightarrow>
              (heap (table_after_action g player action amt))
                (winner := win_chips (heap (table_after_action g player action amt) winner)
                   (get_total_pot (pot (table_after_action g player action amt))))
          | _ \<Rightarrow> heap (table_after_action g player action amt))"
proof -
  let ?g0 = "snd (get_current_player g)"
  let ?t = "table_after_action g player action amt"
  from ok obtain g1 where g1: "apply_action ?g0 player action amt = Some g1"
    by (cases "get_current_player g")
       (auto simp: player_action_def Let_def split: if_splits option.splits)
  then have t: "?t = next_player g1" by (simp add: table_after_action_def)
  from ok g1 one have g': "g' = handle_single_winner ?t"
    unfolding t
    by (cases "get_current_player g")
       (auto simp: player_action_def Let_def split: if_splits option.splits sum.splits)
  from table_after_action_board [OF g1] show ?thesis
    unfolding g' by (auto simp: handle_single_winner_def Let_def win_chips_def split: list.splits)
qed

theorem single_survivor_takes_pot_witness:
  "length (filter (\<lambda>p. is_in_hand (heap (table_after_action blinds_posted 1 FOLD 0) p))
             (players (table_after_action blinds_posted 1 FOLD 0))) \<le> 1
   \<and> community_cards blinds_posted = []
   \<and> chips (heap blinds_posted 0) = 980
   \<and> (\<exists>g'. player_action blinds_posted 1 FOLD 0 = Inr (True, g')
          \<and> phase g' = HAND_COMPLETE
          \<and> community_cards g' = []
          \<and> status (heap g' 0) = ACTIVE \<and> status (heap g' 1) = FOLDED
          \<and> chips (heap g' 0) = 1010)"
proof -
  have ev: "length (filter (\<lambda>p. is_in_hand (heap (table_after_action blinds_posted 1 FOLD 0) p))
             (players (table_after_action blinds_posted 1 FOLD 0))) \<le> 1
      \<and> community_cards blinds_posted = []
      \<and> chips (heap blinds_posted 0) = 980
      \<and> (case player_action blinds_posted 1 FOLD 0 of Inl e \<Rightarrow> False | Inr (ok, g') \<Rightarrow> ok)
      \<and> filter (\<lambda>p. is_in_hand (heap (table_after_action blinds_posted 1 FOLD 0) p))
             (players (table_after_action blinds_posted 1 FOLD 0)) = [0]
      \<and> chips (heap (table_after_action blinds_posted 1 FOLD 0) 0) = 980
      \<and> get_total_pot (pot (table_after_action blinds_posted 1 FOLD 0)) = 30
      \<and> status (heap (table_after_action blinds_posted 1 FOLD 0) 0) = ACTIVE
      \<and> status (heap (table_after_action blinds_posted 1 FOLD 0) 1) = FOLDED"
    by code_simp
  then obtain g' where g': "player_action blinds_posted 1 FOLD 0 = Inr (True, g')"
    by (cases "player_action blinds_posted 1 FOLD 0") auto
  from ev have one: "length (filter (\<lambda>p. is_in_hand (heap (table_after_action blinds_posted 1 FOLD 0) p))
             (players (table_after_action blinds_posted 1 FOLD 0))) \<le> 1" by simp
  from single_survivor_takes_pot [OF g' one, of 0] single_survivor_takes_pot [OF g' one, of 1] ev
  have "phase g' = HAND_COMPLETE \<and> community_cards g' = []
        \<and> status (heap g' 0) = ACTIVE \<and> status (heap g' 1) = FOLDED
        \<and> chips (heap g' 0) = 1010"
    by (simp add: win_chips_def)
  with g' ev show ?thesis by blast
qed

section \<open>Refused requests\<close>

lemma acting_seats_index [simp]:
  "acting_seats (g\<lparr>current_player_index := i\<rparr>) = acting_seats g"
  by (simp add: acting_seats_def)















section \<open>The category of five cards\<close>

subsection \<open>Sorting the cards changes neither suits nor ranks\<close>

lemma mset_sort_cards_desc: "mset (sort_cards_desc cs) = mset cs"
  by (simp add: sort_cards_desc_def)

lemma set_sort_cards_desc: "set (sort_cards_desc cs) = set cs"
  by (simp add: sort_cards_desc_def)

lemma mset_ranks_sorted: "mset (ranks_of (sort_cards_desc cs)) = mset (ranks_of cs)"
  by (simp add: ranks_of_def mset_sort_cards_desc)

lemma sort_ranks_sorted: "sort (ranks_of (sort_cards_desc cs)) = sort (ranks_of cs)"
  by (rule properties_for_sort) (simp_all add: mset_ranks_sorted)

lemma set_ranks_sorted: "set (ranks_of (sort_cards_desc cs)) = set (ranks_of cs)"
  by (simp add: ranks_of_def set_sort_cards_desc)

lemma count_ranks_sorted:
  "count_list (ranks_of (sort_cards_desc cs)) r = count_list (ranks_of cs) r"
  using mset_ranks_sorted [of cs] by (simp flip: count_mset)

lemma distinct_ranks_sorted: "distinct (ranks_of (sort_cards_desc cs)) = distinct (ranks_of cs)"
  by (rule mset_eq_imp_distinct_iff) (rule mset_ranks_sorted)

lemma is_flush_sorted: "is_flush (sort_cards_desc cs) = is_flush cs"
  by (simp add: is_flush_def set_sort_cards_desc)

lemma of_a_kind_sorted: "of_a_kind n (sort_cards_desc cs) = of_a_kind n cs"
  by (simp add: of_a_kind_def set_ranks_sorted count_ranks_sorted)

lemma pairs_in_sorted: "pairs_in (sort_cards_desc cs) = pairs_in cs"
  by (simp add: pairs_in_def set_ranks_sorted count_ranks_sorted)

lemma run_of_five_sorted: "run_of_five (sort_cards_desc cs) = run_of_five cs"
  by (simp add: run_of_five_def set_ranks_sorted distinct_ranks_sorted)

lemma is_flush_same_suit:
  assumes ne: "cs \<noteq> []"
  shows "is_flush cs = same_suit cs"
proof
  from ne have hd: "suit (hd cs) \<in> suit ` set cs" by (cases cs) simp_all
  {
    assume "is_flush cs"
    then have "card (suit ` set cs) = 1" by (simp add: is_flush_def)
    then obtain s where s: "suit ` set cs = {s}" by (rule card_1_singletonE)
    with hd have h: "suit (hd cs) = s" by simp
    have "\<forall>c \<in> set cs. suit c = suit (hd cs)"
    proof
      fix c assume "c \<in> set cs"
      then have "suit c \<in> suit ` set cs" by (rule imageI)
      with s h show "suit c = suit (hd cs)" by simp
    qed
    with ne show "same_suit cs" unfolding same_suit_def by blast
  }
  {
    assume ss: "same_suit cs"
    have "suit ` set cs = {suit (hd cs)}"
    proof (rule equalityI)
      show "suit ` set cs \<subseteq> {suit (hd cs)}"
        using ss unfolding same_suit_def by blast
      show "{suit (hd cs)} \<subseteq> suit ` set cs" using hd by simp
    qed
    then show "is_flush cs" by (simp add: is_flush_def)
  }
qed

subsection \<open>Straights\<close>

lemma sort_eq_iff:
  fixes xs ys :: "int list"
  assumes "sorted ys" and "distinct ys"
  shows "sort xs = ys \<longleftrightarrow> distinct xs \<and> set xs = set ys"
proof
  assume "sort xs = ys"
  with assms(2) have "distinct (sort xs)" and "set (sort xs) = set ys" by simp_all
  then show "distinct xs \<and> set xs = set ys" by simp
next
  assume "distinct xs \<and> set xs = set ys"
  then have "distinct (sort xs)" and "set (sort xs) = set ys" by simp_all
  with assms show "sort xs = ys"
    using sorted_distinct_set_unique [of "sort xs" ys] by simp
qed

lemma five_distinct_run:
  fixes rs :: "int list"
  assumes len: "length rs = 5" and d: "distinct rs"
  shows "(\<exists>a. set rs = {a..a + 4}) \<longleftrightarrow> Max (set rs) - Min (set rs) = 4"
proof
  assume "\<exists>a. set rs = {a..a + 4}"
  then obtain a where a: "set rs = {a..a + 4}" by blast
  have "Max {a..a + 4} = a + 4" by (rule Max_eqI) auto
  moreover have "Min {a..a + 4} = a" by (rule Min_eqI) auto
  ultimately show "Max (set rs) - Min (set rs) = 4" by (simp add: a)
next
  assume m: "Max (set rs) - Min (set rs) = 4"
  from len have ne: "set rs \<noteq> {}" by auto
  have "set rs \<subseteq> {Min (set rs)..Max (set rs)}"
    using ne by (auto intro: Min_le Max_ge)
  with m have sub: "set rs \<subseteq> {Min (set rs)..Min (set rs) + 4}"
    by (metis add.commute diff_add_cancel)
  have "card (set rs) = 5" using d len by (simp add: distinct_card)
  moreover have "card {Min (set rs)..Min (set rs) + 4} = 5" by simp
  ultimately have "set rs = {Min (set rs)..Min (set rs) + 4}"
    using sub by (intro card_subset_eq) simp_all
  then show "\<exists>a. set rs = {a..a + 4}" by blast
qed

lemma is_straight_run_of_five:
  assumes len: "length cs = 5"
  shows "is_straight cs = Inr (run_of_five cs)"
proof -
  let ?rs = "ranks_of cs"
  let ?srt = "sort ?rs"
  from len have l: "length ?rs = 5" by (simp add: ranks_of_def)
  then have "length ?srt = 5" by simp
  then obtain r0 rest where srt: "?srt = r0 # rest" by (cases ?srt) auto
  have run: "?srt = [r0..r0 + 4] \<longleftrightarrow> distinct ?rs \<and> Max (set ?rs) - Min (set ?rs) = 4"
  proof
    assume e: "?srt = [r0..r0 + 4]"
    then have "distinct ?rs \<and> set ?rs = set [r0..r0 + 4]"
      using sort_eq_iff [of "[r0..r0 + 4]" ?rs] by simp
    then have d: "distinct ?rs" and s: "set ?rs = {r0..r0 + 4}" by simp_all
    from five_distinct_run [OF l d] s d
    show "distinct ?rs \<and> Max (set ?rs) - Min (set ?rs) = 4" by blast
  next
    assume a: "distinct ?rs \<and> Max (set ?rs) - Min (set ?rs) = 4"
    with five_distinct_run [OF l] obtain a where s: "set ?rs = {a..a + 4}" by blast
    with a have "?srt = [a..a + 4]"
      using sort_eq_iff [of "[a..a + 4]" ?rs] by simp
    moreover have "[a..a + 4] = a # [a + 1..a + 4]" by (simp add: upto_rec1)
    ultimately show "?srt = [r0..r0 + 4]" using srt by simp
  qed
  have wheel: "?srt = [2, 3, 4, 5, 14] \<longleftrightarrow> distinct ?rs \<and> set ?rs = {2, 3, 4, 5, 14}"
    using sort_eq_iff [of "[2, 3, 4, 5, 14]" ?rs] by simp
  have "is_straight cs = Inr (?srt = [r0..r0 + 4] \<or> ?srt = [2, 3, 4, 5, 14])"
    using srt by (simp add: is_straight_def ranks_of_def Let_def)
  also have "(?srt = [r0..r0 + 4] \<or> ?srt = [2, 3, 4, 5, 14]) = run_of_five cs"
    unfolding run wheel run_of_five_def by blast
  finally show ?thesis .
qed

lemma royal_ranks:
  assumes len: "length cs = 5"
  shows "sort (ranks_of cs) = [10, 11, 12, 13, 14] \<longleftrightarrow> set (ranks_of cs) = {10, 11, 12, 13, 14}"
proof -
  let ?rs = "ranks_of cs"
  from len have l: "length ?rs = 5" by (simp add: ranks_of_def)
  have "set ?rs = {10, 11, 12, 13, 14} \<Longrightarrow> distinct ?rs"
  proof -
    assume "set ?rs = {10, 11, 12, 13, 14}"
    then have "card (set ?rs) = 5" by simp
    with l show "distinct ?rs" by (simp add: card_distinct)
  qed
  then show ?thesis
    using sort_eq_iff [of "[10, 11, 12, 13, 14]" ?rs] by auto
qed

lemma is_royal_flush_spec:
  assumes "length cs = 5"
  shows "is_royal_flush cs = (same_suit cs \<and> set (ranks_of cs) = {10, 11, 12, 13, 14})"
proof -
  from assms have "cs \<noteq> []" by auto
  from is_flush_same_suit [OF this] royal_ranks [OF assms] show ?thesis
    by (simp add: is_royal_flush_def ranks_of_def)
qed

subsection \<open>The checks, in the words of the specification\<close>

lemma rank_counts_mem:
  "(k, c) \<in> set (rank_counts_of cs) \<longleftrightarrow> k \<in> set (ranks_of cs) \<and> c = count_list (ranks_of cs) k"
  by (simp add: rank_counts_of_def ranks_of_def Counter_mem)

lemma find_count_None:
  "(find (\<lambda>(r, c). c = n) (rank_counts_of cs) = None) = (\<not> of_a_kind n cs)"
proof -
  have "(find (\<lambda>(r, c). c = n) (rank_counts_of cs) = None)
        = (\<not> (\<exists>k c. (k, c) \<in> set (rank_counts_of cs) \<and> c = n))"
    by (auto simp: find_None_iff)
  also have "\<dots> = (\<not> of_a_kind n cs)"
    by (auto simp: rank_counts_mem of_a_kind_def)
  finally show ?thesis .
qed

lemma rank_value_ge: "2 \<le> rank_value r"
  by (cases r) simp_all

lemma rank_keys_nonzero: "(k, c) \<in> set (rank_counts_of cs) \<Longrightarrow> k \<noteq> 0"
proof -
  assume "(k, c) \<in> set (rank_counts_of cs)"
  then have "k \<in> set (ranks_of cs)" by (simp add: rank_counts_mem)
  then have "k \<in> (\<lambda>c. rank_value (rank c)) ` set cs" by (simp add: ranks_of_def)
  then obtain x :: Card where "k = rank_value (rank x)" by blast
  with rank_value_ge [of "rank x"] show ?thesis by simp
qed

lemma check_four_spec:
  assumes "length cs = 5"
  shows "\<exists>r. check_four_of_a_kind cs = Inr (if of_a_kind 4 cs then Some r else None)
             \<and> hand_rank r = FOUR_OF_A_KIND"
proof (cases "find (\<lambda>(r, c). c = 4) (rank_counts_of cs)")
  case None
  then have "\<not> of_a_kind 4 cs" by (simp add: find_count_None)
  with None show ?thesis
    by (auto simp: check_four_of_a_kind_def Let_def intro: exI [of _ "\<lparr>hand_rank = FOUR_OF_A_KIND, cards = [], rank_values = []\<rparr>"])
next
  case (Some x)
  obtain r c where x: "x = (r, c)" by (cases x)
  from Some have "of_a_kind 4 cs" using find_count_None [of 4 cs] by simp
  moreover from four_kind_kicker [OF assms Some [unfolded x]]
  obtain k ks where "ranks_with_count 1 (rank_counts_of cs) = k # ks"
    by (cases "ranks_with_count 1 (rank_counts_of cs)") auto
  ultimately show ?thesis using Some x
    by (simp add: check_four_of_a_kind_def Let_def)
qed

lemma full_house_scan_truthy:
  assumes "\<And>r c. (r, c) \<in> set kvs \<Longrightarrow> r \<noteq> 0"
  shows "truthy (fst (full_house_scan kvs t p)) = (truthy t \<or> (\<exists>r. (r, 3) \<in> set kvs))
       \<and> truthy (snd (full_house_scan kvs t p)) = (truthy p \<or> (\<exists>r. (r, 2) \<in> set kvs))"
  using assms
proof (induction kvs arbitrary: t p)
  case Nil
  show ?case by simp
next
  case (Cons kv kvs)
  obtain r c where kv: "kv = (r, c)" by (cases kv)
  from Cons.prems [of r c] kv have r: "r \<noteq> 0" by simp
  have rest: "\<And>r c. (r, c) \<in> set kvs \<Longrightarrow> r \<noteq> 0" using Cons.prems by fastforce
  from Cons.IH [where t = "Some r" and p = p, OF rest]
    Cons.IH [where t = t and p = "Some r", OF rest] Cons.IH [where t = t and p = p, OF rest]
    kv r show ?case
    by auto
qed

lemma check_full_house_spec:
  "\<exists>r. check_full_house cs = (if of_a_kind 3 cs \<and> of_a_kind 2 cs then Some r else None)
       \<and> hand_rank r = FULL_HOUSE"
proof -
  have k: "\<And>n. (\<exists>r. (r, n) \<in> set (rank_counts_of cs)) = of_a_kind n cs"
    by (auto simp: rank_counts_mem of_a_kind_def)
  from full_house_scan_truthy [of "rank_counts_of cs" None None] rank_keys_nonzero [of _ _ cs]
  have "truthy (fst (full_house_scan (rank_counts_of cs) None None)) = of_a_kind 3 cs
      \<and> truthy (snd (full_house_scan (rank_counts_of cs) None None)) = of_a_kind 2 cs"
    by (simp add: k)
  then show ?thesis
    by (cases "full_house_scan (rank_counts_of cs) None None")
       (auto simp: check_full_house_def
             intro: exI [of _ "\<lparr>hand_rank = FULL_HOUSE, cards = [], rank_values = []\<rparr>"])
qed

lemma check_three_spec:
  "\<exists>r. check_three_of_a_kind cs = (if of_a_kind 3 cs then Some r else None)
       \<and> hand_rank r = THREE_OF_A_KIND"
proof (cases "find (\<lambda>(r, c). c = 3) (rank_counts_of cs)")
  case None
  then have "\<not> of_a_kind 3 cs" by (simp add: find_count_None)
  with None show ?thesis
    by (auto simp: check_three_of_a_kind_def Let_def
             intro: exI [of _ "\<lparr>hand_rank = THREE_OF_A_KIND, cards = [], rank_values = []\<rparr>"])
next
  case (Some x)
  obtain r c where x: "x = (r, c)" by (cases x)
  from Some have "of_a_kind 3 cs" using find_count_None [of 3 cs] by simp
  then show ?thesis using Some x
    by (simp add: check_three_of_a_kind_def Let_def)
qed

lemma check_one_pair_spec:
  "\<exists>r. check_one_pair cs = (if of_a_kind 2 cs then Some r else None)
       \<and> hand_rank r = ONE_PAIR"
proof (cases "find (\<lambda>(r, c). c = 2) (rank_counts_of cs)")
  case None
  then have "\<not> of_a_kind 2 cs" by (simp add: find_count_None)
  with None show ?thesis
    by (auto simp: check_one_pair_def Let_def
             intro: exI [of _ "\<lparr>hand_rank = ONE_PAIR, cards = [], rank_values = []\<rparr>"])
next
  case (Some x)
  obtain r c where x: "x = (r, c)" by (cases x)
  from Some have "of_a_kind 2 cs" using find_count_None [of 2 cs] by simp
  then show ?thesis using Some x
    by (simp add: check_one_pair_def Let_def)
qed

lemma pairs_length: "length (ranks_with_count 2 (rank_counts_of cs)) = pairs_in cs"
proof -
  let ?rc = "rank_counts_of cs"
  let ?f = "filter (\<lambda>(r, c). c = 2) ?rc"
  have "distinct (map fst ?rc)" by (simp add: rank_counts_of_def Counter_distinct)
  then have "distinct (map fst ?f)" by (rule distinct_map_filter)
  then have "length (map fst ?f) = card (set (map fst ?f))" by (simp only: distinct_card)
  moreover have "set (map fst ?f) = {r \<in> set (ranks_of cs). count_list (ranks_of cs) r = 2}"
    by (auto simp: rank_counts_mem image_iff)
  ultimately show ?thesis by (simp add: ranks_with_count_def pairs_in_def)
qed

lemma check_two_pair_spec:
  assumes "length cs = 5"
  shows "\<exists>r. check_two_pair cs = Inr (if pairs_in cs = 2 then Some r else None)
             \<and> hand_rank r = TWO_PAIR"
proof (cases "pairs_in cs = 2")
  case False
  then show ?thesis
    by (auto simp: check_two_pair_def Let_def pairs_length
             intro: exI [of _ "\<lparr>hand_rank = TWO_PAIR, cards = [], rank_values = []\<rparr>"])
next
  case True
  then have l: "length (ranks_with_count 2 (rank_counts_of cs)) = 2" by (simp add: pairs_length)
  from two_pair_kicker [OF assms l]
  obtain k ks where "ranks_with_count 1 (rank_counts_of cs) = k # ks"
    by (cases "ranks_with_count 1 (rank_counts_of cs)") auto
  with True l show ?thesis by (simp add: check_two_pair_def Let_def)
qed

lemma same_suit_sorted: "same_suit (sort_cards_desc cs) = same_suit cs"
proof (cases "cs = []")
  case True
  then show ?thesis by (simp add: sort_cards_desc_def)
next
  case False
  then have "sort_cards_desc cs \<noteq> []"
    by (metis length_0_conv length_sort_cards_desc)
  from is_flush_same_suit [OF this] is_flush_same_suit [OF False] is_flush_sorted [of cs]
  show ?thesis by simp
qed

lemma category_sorted: "category_by_priority (sort_cards_desc cs) = category_by_priority cs"
  by (simp add: category_by_priority_def same_suit_sorted of_a_kind_sorted pairs_in_sorted
        run_of_five_sorted set_ranks_sorted)

lemma five_card_category_any_order:
  assumes l: "length xs = 5"
  shows "\<exists>r. (if is_royal_flush xs
             then Inr \<lparr>hand_rank = ROYAL_FLUSH, cards = xs, rank_values = [14]\<rparr>
             else case is_straight_flush xs of
               Inl e \<Rightarrow> Inl e
             | Inr True \<Rightarrow>
                 (case get_straight_high_card xs of
                    Inl e \<Rightarrow> Inl e
                  | Inr high_card \<Rightarrow>
                      Inr \<lparr>hand_rank = STRAIGHT_FLUSH, cards = xs,
                           rank_values = [high_card]\<rparr>)
             | Inr False \<Rightarrow>
             case check_four_of_a_kind xs of
               Inl e \<Rightarrow> Inl e
             | Inr (Some four_kind_result) \<Rightarrow> Inr four_kind_result
             | Inr None \<Rightarrow>
             case check_full_house xs of
               Some full_house_result \<Rightarrow> Inr full_house_result
             | None \<Rightarrow>
             if is_flush xs
             then Inr \<lparr>hand_rank = FLUSH, cards = xs, rank_values = vs\<rparr>
             else case is_straight xs of
               Inl e \<Rightarrow> Inl e
             | Inr True \<Rightarrow>
                 (case get_straight_high_card xs of
                    Inl e \<Rightarrow> Inl e
                  | Inr high_card \<Rightarrow>
                      Inr \<lparr>hand_rank = STRAIGHT, cards = xs,
                           rank_values = [high_card]\<rparr>)
             | Inr False \<Rightarrow>
             case check_three_of_a_kind xs of
               Some three_kind_result \<Rightarrow> Inr three_kind_result
             | None \<Rightarrow>
             case check_two_pair xs of
               Inl e \<Rightarrow> Inl e
             | Inr (Some two_pair_result) \<Rightarrow> Inr two_pair_result
             | Inr None \<Rightarrow>
             case check_one_pair xs of
               Some one_pair_result \<Rightarrow> Inr one_pair_result
             | None \<Rightarrow>
                 Inr \<lparr>hand_rank = HIGH_CARD, cards = xs, rank_values = vs\<rparr>) = Inr r
           \<and> hand_rank r = category_by_priority xs"
proof -
  from l have ne: "xs \<noteq> []" by auto
  have royal: "is_royal_flush xs = (same_suit xs \<and> set (ranks_of xs) = {10, 11, 12, 13, 14})"
    using l by (rule is_royal_flush_spec)
  have fl: "is_flush xs = same_suit xs" using ne by (rule is_flush_same_suit)
  have st: "is_straight xs = Inr (run_of_five xs)" using l by (rule is_straight_run_of_five)
  have sf: "is_straight_flush xs = Inr (same_suit xs \<and> run_of_five xs)"
    by (simp add: is_straight_flush_def fl st)
  from high_card_total [OF ne] obtain h where h: "get_straight_high_card xs = Inr h" by blast
  from check_four_spec [OF l] obtain r4 where
    r4: "check_four_of_a_kind xs = Inr (if of_a_kind 4 xs then Some r4 else None)"
        "hand_rank r4 = FOUR_OF_A_KIND" by blast
  from check_full_house_spec [of xs] obtain rf where
    rf: "check_full_house xs = (if of_a_kind 3 xs \<and> of_a_kind 2 xs then Some rf else None)"
        "hand_rank rf = FULL_HOUSE" by blast
  from check_three_spec [of xs] obtain r3 where
    r3: "check_three_of_a_kind xs = (if of_a_kind 3 xs then Some r3 else None)"
        "hand_rank r3 = THREE_OF_A_KIND" by blast
  from check_two_pair_spec [OF l] obtain r2 where
    r2: "check_two_pair xs = Inr (if pairs_in xs = 2 then Some r2 else None)"
        "hand_rank r2 = TWO_PAIR" by blast
  from check_one_pair_spec [of xs] obtain r1 where
    r1: "check_one_pair xs = (if of_a_kind 2 xs then Some r1 else None)"
        "hand_rank r1 = ONE_PAIR" by blast
  show ?thesis
    unfolding royal sf fl st h r4(1) rf(1) r3(1) r2(1) r1(1) category_by_priority_def
    using r4(2) rf(2) r3(2) r2(2) r1(2)
    by simp
qed

lemma five_card_category:
  assumes l: "length cs = 5"
  shows "\<exists>r. evaluate_five_cards cs = Inr r \<and> hand_rank r = category_by_priority cs"
proof -
  from l have "length (sort_cards_desc cs) = 5" by (simp add: length_sort_cards_desc)
  from five_card_category_any_order [OF this,
      of "map (\<lambda>c. rank_value (rank c)) (sort_cards_desc cs)"] l
  show ?thesis
    by (simp add: evaluate_five_cards_def Let_def category_sorted)
qed

text \<open>
  Claim C6.  On every list of five cards the five-card evaluator returns a result, and
  the category of the result is the one that the specification's priority list
  assigns: the first of Royal Flush, Straight Flush, Four of a Kind, Full House,
  Flush, Straight, Three of a Kind, Two Pair, One Pair and High Card whose condition
  the cards meet.  A result has one category, so no hand is given two; in particular
  five cards of one suit that form a straight are a Straight Flush or a Royal Flush,
  never a plain Flush or a plain Straight.
\<close>

theorem five_cards_one_category:
  "length cs = 5 \<longrightarrow>
     (\<exists>r. evaluate_five_cards cs = Inr r
        \<and> hand_rank r = category_by_priority cs
        \<and> (same_suit cs \<and> run_of_five cs \<longrightarrow>
             hand_rank r = STRAIGHT_FLUSH \<or> hand_rank r = ROYAL_FLUSH))"
proof
  assume "length cs = 5"
  from five_card_category [OF this] obtain r where
    r: "evaluate_five_cards cs = Inr r" "hand_rank r = category_by_priority cs" by blast
  have "same_suit cs \<and> run_of_five cs \<longrightarrow>
      category_by_priority cs = STRAIGHT_FLUSH \<or> category_by_priority cs = ROYAL_FLUSH"
    by (simp add: category_by_priority_def)
  with r show "\<exists>r. evaluate_five_cards cs = Inr r
        \<and> hand_rank r = category_by_priority cs
        \<and> (same_suit cs \<and> run_of_five cs \<longrightarrow>
             hand_rank r = STRAIGHT_FLUSH \<or> hand_rank r = ROYAL_FLUSH)"
    by auto
qed

theorem five_cards_one_category_witness:
  "length straight_flush_hand = 5
   \<and> same_suit straight_flush_hand \<and> run_of_five straight_flush_hand
   \<and> category_by_priority straight_flush_hand = STRAIGHT_FLUSH
   \<and> (\<exists>r. evaluate_five_cards straight_flush_hand = Inr r \<and> hand_rank r = STRAIGHT_FLUSH)"
proof -
  have ev: "length straight_flush_hand = 5
      \<and> same_suit straight_flush_hand \<and> run_of_five straight_flush_hand
      \<and> category_by_priority straight_flush_hand = STRAIGHT_FLUSH"
    by code_simp
  with five_cards_one_category [of straight_flush_hand] show ?thesis by auto
qed

section \<open>The wheel\<close>

lemma distinct_ranks_no_kind:
  assumes "distinct (ranks_of cs)" and "n \<noteq> 1"
  shows "\<not> of_a_kind n cs"
proof -
  have "\<And>r. r \<in> set (ranks_of cs) \<Longrightarrow> count_list (ranks_of cs) r = 1"
    using assms(1) distinct_count_atmost_1 [of "ranks_of cs"] by (simp flip: count_mset)
  with assms(2) show ?thesis by (auto simp: of_a_kind_def)
qed

lemma plain_straight:
  assumes l: "length cs = 5" and run: "run_of_five cs" and ns: "\<not> same_suit cs"
  shows "\<exists>h. get_straight_high_card (sort_cards_desc cs) = Inr h
           \<and> evaluate_five_cards cs
               = Inr \<lparr>hand_rank = STRAIGHT, cards = sort_cards_desc cs, rank_values = [h]\<rparr>"
proof -
  let ?s = "sort_cards_desc cs"
  from l have ls: "length ?s = 5" by (simp add: length_sort_cards_desc)
  then have ne: "?s \<noteq> []" by auto
  from run have d: "distinct (ranks_of ?s)"
    by (simp add: run_of_five_def distinct_ranks_sorted)
  from ns have nss: "\<not> same_suit ?s" by (simp add: same_suit_sorted)
  have royal: "\<not> is_royal_flush ?s" using nss by (simp add: is_royal_flush_spec [OF ls])
  have fl: "\<not> is_flush ?s" using nss by (simp add: is_flush_same_suit [OF ne])
  have st: "is_straight ?s = Inr True"
    using run by (simp add: is_straight_run_of_five [OF ls] run_of_five_sorted)
  have sf: "is_straight_flush ?s = Inr False" using fl by (simp add: is_straight_flush_def)
  from check_four_spec [OF ls] distinct_ranks_no_kind [OF d, of 4]
  have f4: "check_four_of_a_kind ?s = Inr None" by auto
  from check_full_house_spec [of ?s] distinct_ranks_no_kind [OF d, of 3]
  have fh: "check_full_house ?s = None" by auto
  from high_card_total [OF ne] obtain h where h: "get_straight_high_card ?s = Inr h" by blast
  with l royal fl st sf f4 fh show ?thesis
    by (simp add: evaluate_five_cards_def Let_def)
qed

lemma sorted_ranks_of_set:
  assumes l: "length cs = 5" and s: "set (ranks_of cs) = set ys"
    and ys: "sorted ys" "distinct ys" "length ys = 5"
  shows "sort (map (\<lambda>c. rank_value (rank c)) (sort_cards_desc cs)) = ys
         \<and> distinct (ranks_of cs)"
proof -
  from l have "length (ranks_of cs) = 5" by (simp add: ranks_of_def)
  moreover from s ys have "card (set (ranks_of cs)) = 5" by (simp add: distinct_card)
  ultimately have d: "distinct (ranks_of cs)" by (simp add: card_distinct)
  with s ys have "sort (ranks_of cs) = ys" by (simp add: sort_eq_iff)
  with d show ?thesis using sort_ranks_sorted [of cs] by (simp add: ranks_of_def)
qed

lemma wheel_result:
  assumes l: "length cs = 5" and w: "set (ranks_of cs) = {2, 3, 4, 5, 14}"
    and ns: "\<not> same_suit cs"
  shows "evaluate_five_cards cs
           = Inr \<lparr>hand_rank = STRAIGHT, cards = sort_cards_desc cs, rank_values = [5]\<rparr>"
proof -
  from sorted_ranks_of_set [OF l, of "[2, 3, 4, 5, 14]"] w
  have srt: "sort (map (\<lambda>c. rank_value (rank c)) (sort_cards_desc cs)) = [2, 3, 4, 5, 14]"
    and d: "distinct (ranks_of cs)" by simp_all
  from d w have run: "run_of_five cs" by (simp add: run_of_five_def)
  from srt have "get_straight_high_card (sort_cards_desc cs) = Inr 5"
    by (simp add: get_straight_high_card_def)
  with plain_straight [OF l run ns] show ?thesis by auto
qed

lemma six_high_result:
  assumes l: "length cs = 5" and w: "set (ranks_of cs) = {2, 3, 4, 5, 6}"
    and ns: "\<not> same_suit cs"
  shows "evaluate_five_cards cs
           = Inr \<lparr>hand_rank = STRAIGHT, cards = sort_cards_desc cs, rank_values = [6]\<rparr>"
proof -
  from sorted_ranks_of_set [OF l, of "[2, 3, 4, 5, 6]"] w
  have srt: "sort (map (\<lambda>c. rank_value (rank c)) (sort_cards_desc cs)) = [2, 3, 4, 5, 6]"
    and d: "distinct (ranks_of cs)" by simp_all
  have "Max {2, 3, 4, 5, 6 :: int} = 6" "Min {2, 3, 4, 5, 6 :: int} = 2" by simp_all
  with d w have run: "run_of_five cs" by (simp add: run_of_five_def)
  from srt have "get_straight_high_card (sort_cards_desc cs) = Inr 6"
    by (simp add: get_straight_high_card_def)
  with plain_straight [OF l run ns] show ?thesis by auto
qed

text \<open>
  Claim C7.  Five cards with the ranks 2, 3, 4, 5 and ace that are not all of one
  suit are a Straight whose tie-break list is \<open>[5]\<close>.  This result ranks strictly
  below the result of every 6-high straight (five cards with the ranks 2 to 6, not
  all of one suit), which is a Straight with the tie-break list \<open>[6]\<close>, and strictly
  above every result of the category One Pair.
\<close>

theorem wheel_is_five_high_straight:
  "length cs = 5 \<longrightarrow> set (ranks_of cs) = {2, 3, 4, 5, 14} \<longrightarrow> \<not> same_suit cs \<longrightarrow>
     (\<exists>r. evaluate_five_cards cs = Inr r
        \<and> hand_rank r = STRAIGHT
        \<and> rank_values r = [5]
        \<and> (\<forall>six r6. length six = 5 \<longrightarrow> set (ranks_of six) = {2, 3, 4, 5, 6} \<longrightarrow>
               \<not> same_suit six \<longrightarrow> evaluate_five_cards six = Inr r6 \<longrightarrow>
               hand_rank r6 = STRAIGHT \<and> rank_values r6 = [6]
               \<and> hand_lt r r6 \<and> \<not> hand_lt r6 r \<and> \<not> hand_eq r r6)
        \<and> (\<forall>other r1. evaluate_five_cards other = Inr r1 \<longrightarrow> hand_rank r1 = ONE_PAIR \<longrightarrow>
               hand_lt r1 r \<and> \<not> hand_lt r r1 \<and> \<not> hand_eq r r1))"
proof (intro impI)
  assume l: "length cs = 5" and w: "set (ranks_of cs) = {2, 3, 4, 5, 14}"
    and ns: "\<not> same_suit cs"
  let ?r = "\<lparr>hand_rank = STRAIGHT, cards = sort_cards_desc cs, rank_values = [5]\<rparr>"
  have e: "evaluate_five_cards cs = Inr ?r" using l w ns by (rule wheel_result)
  have six: "hand_rank r6 = STRAIGHT \<and> rank_values r6 = [6]
               \<and> hand_lt ?r r6 \<and> \<not> hand_lt r6 ?r \<and> \<not> hand_eq ?r r6"
    if "length six = 5" "set (ranks_of six) = {2, 3, 4, 5, 6}" "\<not> same_suit six"
       "evaluate_five_cards six = Inr r6" for six r6
    using six_high_result [OF that(1,2,3)] that(4)
    by (auto simp: hand_lt_def hand_eq_def)
  have pair: "hand_lt r1 ?r \<and> \<not> hand_lt ?r r1 \<and> \<not> hand_eq ?r r1"
    if "hand_rank r1 = ONE_PAIR" for r1
    using that by (simp add: hand_lt_def hand_eq_def)
  from e six pair show "\<exists>r. evaluate_five_cards cs = Inr r
        \<and> hand_rank r = STRAIGHT
        \<and> rank_values r = [5]
        \<and> (\<forall>six r6. length six = 5 \<longrightarrow> set (ranks_of six) = {2, 3, 4, 5, 6} \<longrightarrow>
               \<not> same_suit six \<longrightarrow> evaluate_five_cards six = Inr r6 \<longrightarrow>
               hand_rank r6 = STRAIGHT \<and> rank_values r6 = [6]
               \<and> hand_lt r r6 \<and> \<not> hand_lt r6 r \<and> \<not> hand_eq r r6)
        \<and> (\<forall>other r1. evaluate_five_cards other = Inr r1 \<longrightarrow> hand_rank r1 = ONE_PAIR \<longrightarrow>
               hand_lt r1 r \<and> \<not> hand_lt r r1 \<and> \<not> hand_eq r r1)"
    by (intro exI [of _ ?r]) simp
qed

theorem wheel_is_five_high_straight_witness:
  "length wheel_hand = 5 \<and> set (ranks_of wheel_hand) = {2, 3, 4, 5, 14}
   \<and> \<not> same_suit wheel_hand
   \<and> length six_high_straight = 5 \<and> set (ranks_of six_high_straight) = {2, 3, 4, 5, 6}
   \<and> \<not> same_suit six_high_straight
   \<and> (\<exists>r r6 r1.
         evaluate_five_cards wheel_hand = Inr r
         \<and> evaluate_five_cards six_high_straight = Inr r6
         \<and> evaluate_five_cards pair_of_aces = Inr r1
         \<and> hand_rank r = STRAIGHT \<and> rank_values r = [5]
         \<and> hand_rank r1 = ONE_PAIR
         \<and> hand_lt r r6 \<and> hand_lt r1 r)"
proof -
  have ev: "length wheel_hand = 5 \<and> set (ranks_of wheel_hand) = {2, 3, 4, 5, 14}
      \<and> \<not> same_suit wheel_hand
      \<and> length six_high_straight = 5 \<and> set (ranks_of six_high_straight) = {2, 3, 4, 5, 6}
      \<and> \<not> same_suit six_high_straight
      \<and> \<not> isl (evaluate_five_cards six_high_straight)
      \<and> \<not> isl (evaluate_five_cards pair_of_aces)
      \<and> hand_rank (projr (evaluate_five_cards pair_of_aces)) = ONE_PAIR"
    by code_simp
  then obtain r6 r1 where r6: "evaluate_five_cards six_high_straight = Inr r6"
    and r1: "evaluate_five_cards pair_of_aces = Inr r1" and p: "hand_rank r1 = ONE_PAIR"
    by (cases "evaluate_five_cards six_high_straight"; cases "evaluate_five_cards pair_of_aces")
       auto
  from wheel_is_five_high_straight [of wheel_hand] ev obtain r where
    r: "evaluate_five_cards wheel_hand = Inr r" "hand_rank r = STRAIGHT" "rank_values r = [5]"
    and six: "\<forall>six r6. length six = 5 \<longrightarrow> set (ranks_of six) = {2, 3, 4, 5, 6} \<longrightarrow>
               \<not> same_suit six \<longrightarrow> evaluate_five_cards six = Inr r6 \<longrightarrow>
               hand_rank r6 = STRAIGHT \<and> rank_values r6 = [6]
               \<and> hand_lt r r6 \<and> \<not> hand_lt r6 r \<and> \<not> hand_eq r r6"
    and pair: "\<forall>other r1. evaluate_five_cards other = Inr r1 \<longrightarrow> hand_rank r1 = ONE_PAIR \<longrightarrow>
               hand_lt r1 r \<and> \<not> hand_lt r r1 \<and> \<not> hand_eq r r1"
    by blast
  from six ev r6 have "hand_lt r r6" by blast
  moreover from pair r1 p have "hand_lt r1 r" by blast
  ultimately show ?thesis using ev r r6 r1 p by blast
qed

end
